theory Spec2Isabelle
  imports Complex_Main
begin

section \<open>Characters and strings\<close>

text \<open>
  The grader (\<^verbatim>\<open>src/grade.cjs\<close>) works on JavaScript strings, which are sequences of
  UTF-16 code units. A \<^typ>\<open>char\<close> of this theory stands for one code unit in the range
  0..255 (ASCII and the Latin-1 supplement); texts with code units beyond that range are
  outside the model. On this range the regular-expression class \<^verbatim>\<open>\s\<close> and
  \<^verbatim>\<open>String.prototype.trim\<close> recognise the same seven characters, \<^verbatim>\<open>\w\<close> is
  \<^verbatim>\<open>[A-Za-z0-9_]\<close>, and \<^verbatim>\<open>toLowerCase\<close> maps A..Z and the Latin-1 capitals
  (0xC0..0xDE without the multiplication sign 0xD7) to the character 32 positions later.
\<close>

definition isSpace :: "char \<Rightarrow> bool" where
  "isSpace c = (c = CHR 0x09 \<or> c = CHR 0x0A \<or> c = CHR 0x0B \<or> c = CHR 0x0C \<or> c = CHR 0x0D
                \<or> c = CHR 0x20 \<or> c = CHR 0xA0)"

definition isWordChar :: "char \<Rightarrow> bool" where
  "isWordChar c = (let n = (of_char c :: nat) in
     (65 \<le> n \<and> n \<le> 90) \<or> (97 \<le> n \<and> n \<le> 122) \<or> (48 \<le> n \<and> n \<le> 57) \<or> n = 95)"

definition toLowerChar :: "char \<Rightarrow> char" where
  "toLowerChar c = (let n = (of_char c :: nat) in
     if (65 \<le> n \<and> n \<le> 90) \<or> (192 \<le> n \<and> n \<le> 222 \<and> n \<noteq> 215) then char_of (n + 32) else c)"

definition toLowerCase :: "string \<Rightarrow> string" where
  "toLowerCase s = map toLowerChar s"

text \<open>\<^verbatim>\<open>s.trim()\<close>: whitespace removed at both ends.\<close>

definition trim :: "string \<Rightarrow> string" where
  "trim s = rev (dropWhile isSpace (rev (dropWhile isSpace s)))"

text \<open>\<^verbatim>\<open>s.replace(/\s+/g, " ")\<close>: every maximal run of whitespace becomes one space.\<close>

function collapseWs :: "string \<Rightarrow> string" where
  "collapseWs [] = []"
| "collapseWs (c # cs) =
     (if isSpace c then CHR '' '' # collapseWs (dropWhile isSpace cs) else c # collapseWs cs)"
  by pat_completeness auto
termination
  by (relation "measure length") (auto simp: le_imp_less_Suc length_dropWhile_le)


text \<open>\<^verbatim>\<open>s.split(sep)\<close> for a one-character separator; the empty string splits into one empty
  piece.\<close>

fun split :: "char \<Rightarrow> string \<Rightarrow> string list" where
  "split sep [] = [[]]"
| "split sep (c # cs) =
     (if c = sep then [] # split sep cs
      else (case split sep cs of [] \<Rightarrow> [[c]] | p # ps \<Rightarrow> (c # p) # ps))"

text \<open>\<^verbatim>\<open>xs.join(sep)\<close> for a one-character separator.\<close>

fun join :: "char \<Rightarrow> string list \<Rightarrow> string" where
  "join sep [] = []"
| "join sep [p] = p"
| "join sep (p # q # ps) = p @ sep # join sep (q # ps)"

text \<open>\<^verbatim>\<open>s.startsWith(n)\<close> and \<^verbatim>\<open>s.includes(n)\<close>.\<close>

fun startsWith :: "string \<Rightarrow> string \<Rightarrow> bool" where
  "startsWith s [] = True"
| "startsWith [] (n # ns) = False"
| "startsWith (c # cs) (n # ns) = (c = n \<and> startsWith cs ns)"

fun includes_str :: "string \<Rightarrow> string \<Rightarrow> bool" where
  "includes_str [] n = (n = [])"
| "includes_str (c # cs) n = (startsWith (c # cs) n \<or> includes_str cs n)"

section \<open>CSS parsing helpers\<close>

text \<open>
  \<^verbatim>\<open>css.replace(/\/\*[\s\S]*?\*\//g, "")\<close>. The lazy quantifier ends a comment at the first
  \<^verbatim>\<open>*/\<close> that follows its opening \<^verbatim>\<open>/*\<close>; \<open>closeIndex s\<close> is the index just behind
  that first \<^verbatim>\<open>*/\<close> in \<open>s\<close>. An opening without a closing is no match and stays in the text.
\<close>

fun closeIndex :: "string \<Rightarrow> nat option" where
  "closeIndex (a # b # cs) =
     (if a = CHR ''*'' \<and> b = CHR ''/'' then Some 2 else map_option Suc (closeIndex (b # cs)))"
| "closeIndex cs = None"

fun stripCssComments :: "string \<Rightarrow> string" where
  "stripCssComments (a # b # cs) =
     (if a = CHR ''/'' \<and> b = CHR ''*'' then
        (case closeIndex cs of
           Some k \<Rightarrow> stripCssComments (drop k cs)
         | None \<Rightarrow> a # stripCssComments (b # cs))
      else a # stripCssComments (b # cs))"
| "stripCssComments cs = cs"

definition compactWs :: "string \<Rightarrow> string" where
  "compactWs s = trim (collapseWs s)"

definition isEmptyCss :: "string \<Rightarrow> bool" where
  "isEmptyCss css = (let stripped = compactWs (stripCssComments css) in length stripped < 10)"

definition normalizeSelector :: "string \<Rightarrow> string" where
  "normalizeSelector s = trim (collapseWs (toLowerCase s))"

definition normalizeDecls :: "string \<Rightarrow> string" where
  "normalizeDecls s = trim (collapseWs (toLowerCase s))"

record rule =
  selector :: string
  decls :: string

text \<open>
  The regular expression \<^verbatim>\<open>/([^{}]+)\{([^}]*)\}/g\<close> of \<^verbatim>\<open>parseCssRules\<close>.
  \<open>matchAt s\<close> is the match anchored at the first character of \<open>s\<close>: group 1, group 2 and
  the length of the whole match. Both quantifiers are greedy, and giving characters back
  never helps: a shorter group 1 is followed by a character that is no brace, a shorter
  group 2 by a character that is not \<^verbatim>\<open>}\<close>. \<open>reExec s\<close> is \<^verbatim>\<open>re.exec\<close> on the text
  \<open>s\<close> that starts at \<^verbatim>\<open>lastIndex\<close>: the leftmost position with a match, the third
  component being the new \<^verbatim>\<open>lastIndex\<close> counted from the start of \<open>s\<close>.
\<close>

definition isBrace :: "char \<Rightarrow> bool" where
  "isBrace c = (c = CHR ''{'' \<or> c = CHR ''}'')"

definition matchAt :: "string \<Rightarrow> (string \<times> string \<times> nat) option" where
  "matchAt s =
     (let sel = takeWhile (\<lambda>c. \<not> isBrace c) s;
          r1 = dropWhile (\<lambda>c. \<not> isBrace c) s
      in if sel = [] then None
         else (case r1 of
                 [] \<Rightarrow> None
               | c # r2 \<Rightarrow>
                   if c = CHR ''{'' then
                     (let body = takeWhile (\<lambda>c. c \<noteq> CHR ''}'') r2;
                          r3 = dropWhile (\<lambda>c. c \<noteq> CHR ''}'') r2
                      in (case r3 of
                            [] \<Rightarrow> None
                          | d # r4 \<Rightarrow> Some (sel, body, length sel + 1 + length body + 1)))
                   else None))"

fun reExec :: "string \<Rightarrow> (string \<times> string \<times> nat) option" where
  "reExec [] = None"
| "reExec (c # cs) =
     (case matchAt (c # cs) of
        Some m \<Rightarrow> Some m
      | None \<Rightarrow> map_option (\<lambda>(selRaw, declRaw, n). (selRaw, declRaw, Suc n)) (reExec cs))"

text \<open>The body of the \<^verbatim>\<open>while\<close> loop: the rules pushed for one match.\<close>

definition pushRules :: "string \<Rightarrow> string \<Rightarrow> rule list" where
  "pushRules selectorRaw declRaw =
     (let selectorList = filter (\<lambda>x. x \<noteq> []) (map normalizeSelector (split CHR '','' selectorRaw));
          d = normalizeDecls declRaw
      in map (\<lambda>sel. \<lparr>selector = sel, decls = d\<rparr>) selectorList)"

text \<open>
  The \<^verbatim>\<open>while ((m = re.exec(css)) !== null)\<close> loop on the text behind \<^verbatim>\<open>lastIndex\<close>.
  A match is never empty, so the text behind the new \<^verbatim>\<open>lastIndex\<close> \<open>n\<close> is
  \<open>drop (n - 1) cs\<close>.
\<close>

fun parseLoop :: "string \<Rightarrow> rule list" where
  "parseLoop [] = []"
| "parseLoop (c # cs) =
     (case reExec (c # cs) of
        None \<Rightarrow> []
      | Some (selectorRaw, declRaw, n) \<Rightarrow> pushRules selectorRaw declRaw @ parseLoop (drop (n - 1) cs))"

definition parseCssRules :: "string \<Rightarrow> rule list" where
  "parseCssRules cssText = parseLoop (stripCssComments cssText)"


section \<open>Property predicates\<close>

text \<open>
  \<^verbatim>\<open>new RegExp(`\\b${escapeRegExp(p)}\\s*:`, "i").test(decls)\<close>.
  \<^verbatim>\<open>escapeRegExp\<close> puts a backslash before each of \<^verbatim>\<open>. * + ? ^ $ { } ( ) | [ ] \\<close>, so
  every character of \<open>p\<close> is a literal of the pattern. With the flag \<^verbatim>\<open>i\<close> two characters
  match when their canonical (upper-case) forms agree. \<^verbatim>\<open>\b\<close> holds between two
  neighbours of which exactly one is a word character, the outside of the text counting as
  a non-word character. \<^verbatim>\<open>\s*\<close> is greedy; a shorter run of whitespace is followed by
  whitespace, never by the colon.
\<close>

definition canonicalize :: "char \<Rightarrow> char" where
  "canonicalize c = (let n = (of_char c :: nat) in
     if (97 \<le> n \<and> n \<le> 122) \<or> (224 \<le> n \<and> n \<le> 254 \<and> n \<noteq> 247) then char_of (n - 32) else c)"

fun matchLiteral :: "string \<Rightarrow> string \<Rightarrow> string option" where
  "matchLiteral [] s = Some s"
| "matchLiteral (p # ps) [] = None"
| "matchLiteral (p # ps) (c # cs) =
     (if canonicalize p = canonicalize c then matchLiteral ps cs else None)"

definition isWordAt :: "char option \<Rightarrow> bool" where
  "isWordAt x = (case x of None \<Rightarrow> False | Some c \<Rightarrow> isWordChar c)"

definition wordBoundary :: "char option \<Rightarrow> string \<Rightarrow> bool" where
  "wordBoundary prev s = (isWordAt prev \<noteq> isWordAt (case s of [] \<Rightarrow> None | c # cs \<Rightarrow> Some c))"

definition propMatchAt :: "string \<Rightarrow> char option \<Rightarrow> string \<Rightarrow> bool" where
  "propMatchAt p prev s =
     (wordBoundary prev s \<and>
      (case matchLiteral p s of
         None \<Rightarrow> False
       | Some rest \<Rightarrow> (case dropWhile isSpace rest of [] \<Rightarrow> False | c # cs \<Rightarrow> c = CHR '':'')))"

fun propSearch :: "string \<Rightarrow> char option \<Rightarrow> string \<Rightarrow> bool" where
  "propSearch p prev [] = propMatchAt p prev []"
| "propSearch p prev (c # cs) = (propMatchAt p prev (c # cs) \<or> propSearch p (Some c) cs)"

definition propRegExpTest :: "string \<Rightarrow> string \<Rightarrow> bool" where
  "propRegExpTest p d = propSearch p None d"

definition declsHasAnyProperty :: "string \<Rightarrow> string list \<Rightarrow> bool" where
  "declsHasAnyProperty d propNames = list_ex (\<lambda>p. propRegExpTest p d) propNames"

definition declsHasAllProperties :: "string \<Rightarrow> string list \<Rightarrow> bool" where
  "declsHasAllProperties d propNames = list_all (\<lambda>p. propRegExpTest p d) propNames"

text \<open>
  The selector matcher of \<^verbatim>\<open>findMatchingRules\<close> is a string, a \<^verbatim>\<open>RegExp\<close> (given by
  its \<^verbatim>\<open>test\<close>; the expressions the grader passes carry no \<^verbatim>\<open>g\<close> flag, so
  \<^verbatim>\<open>test\<close> keeps no state), a function, or anything else.
\<close>

datatype selectorMatcher =
    MString string
  | MRegExp "string \<Rightarrow> bool"
  | MFunction "string \<Rightarrow> bool"
  | MOther

fun findMatchingRules :: "rule list \<Rightarrow> selectorMatcher \<Rightarrow> rule list" where
  "findMatchingRules rules (MString s) =
     (let target = normalizeSelector s in filter (\<lambda>r. selector r = target) rules)"
| "findMatchingRules rules (MRegExp re) = filter (\<lambda>r. re (selector r)) rules"
| "findMatchingRules rules (MFunction f) = filter (\<lambda>r. f (selector r)) rules"
| "findMatchingRules rules MOther = []"

text \<open>The options object of \<^verbatim>\<open>ruleSatisfies\<close>; an omitted field is the empty list.\<close>

record requirement =
  anyProps :: "string list"
  allProps :: "string list"
  mustInclude :: "string list"

definition ruleSatisfies :: "rule list \<Rightarrow> selectorMatcher \<Rightarrow> requirement \<Rightarrow> bool" where
  "ruleSatisfies rules selectorMatcher opts =
     (let matches = findMatchingRules rules selectorMatcher in
      if length matches = 0 then False
      else list_ex (\<lambda>r.
             let d = decls r;
                 okAll = (if allProps opts \<noteq> [] then declsHasAllProperties d (allProps opts) else True);
                 okAny = (if anyProps opts \<noteq> [] then declsHasAnyProperty d (anyProps opts) else True);
                 okInclude = (if mustInclude opts \<noteq> []
                              then list_all (\<lambda>needle. includes_str d (toLowerCase needle)) (mustInclude opts)
                              else True)
             in okAll \<and> okAny \<and> okInclude) matches)"

definition anyOf :: "string list \<Rightarrow> requirement" where
  "anyOf ps = \<lparr>anyProps = ps, allProps = [], mustInclude = []\<rparr>"

definition RELATED_color :: "string list" where
  "RELATED_color = [''color'']"

definition RELATED_fontSize :: "string list" where
  "RELATED_fontSize = [''font-size'', ''font'']"

definition RELATED_fontFamily :: "string list" where
  "RELATED_fontFamily = [''font-family'', ''font'']"

definition RELATED_fontWeight :: "string list" where
  "RELATED_fontWeight = [''font-weight'', ''font'']"

definition RELATED_background :: "string list" where
  "RELATED_background = [''background-color'', ''background'']"

definition RELATED_padding :: "string list" where
  "RELATED_padding = [''padding'', ''padding-top'', ''padding-right'', ''padding-bottom'', ''padding-left'']"

definition RELATED_textDecoration :: "string list" where
  "RELATED_textDecoration =
     [''text-decoration'', ''text-decoration-line'', ''text-decoration-style'', ''text-decoration-thickness'']"

definition RELATED_boxSizing :: "string list" where
  "RELATED_boxSizing = [''box-sizing'']"

section \<open>Requirement scoring\<close>

record req =
  label :: string
  ok :: bool
  detailIfFail :: string

definition req :: "string \<Rightarrow> bool \<Rightarrow> string \<Rightarrow> req" where
  "req l b detail = \<lparr>label = l, ok = b, detailIfFail = detail\<rparr>"

text \<open>
  JavaScript numbers are modelled by exact rationals: \<open>ok / total\<close>, the products and the
  sum below are the mathematical ones, without the rounding of IEEE doubles. A fraction
  such as \<open>1 / 3\<close> is the exact third here and the nearest double \<^verbatim>\<open>0.3333333333333333\<close>
  in the script; fractions and earned weights are meant up to that rounding. The bucket
  value of the script's own nine tasks is the same in both arithmetics: the exact quotient
  handed to \<^verbatim>\<open>Math.round\<close> is at least \<open>1 / 14\<close> away from every tie (lemma
  \<open>bucket_value_margin\<close>). For other task lists the two can differ: a single task of
  weight 14 with 7 of 20 requirements satisfied has the exact value \<open>80 * 4.9 / 112 = 3.5\<close>,
  rounded to 4, where the doubles give \<^verbatim>\<open>3.4999999999999996\<close>, rounded to 3. The theorems
  on the value of the bucket are therefore stated for the script's task list \<open>tasks\<close>.
\<close>

record score =
  sc_ok :: nat
  sc_total :: nat
  sc_fraction :: rat

definition scoreFromRequirements :: "req list \<Rightarrow> score" where
  "scoreFromRequirements reqs =
     (let total = length reqs;
          k = length (filter ok reqs)
      in if total = 0 then \<lparr>sc_ok = 0, sc_total = 0, sc_fraction = 0\<rparr>
         else \<lparr>sc_ok = k, sc_total = total, sc_fraction = of_nat k / of_nat total\<rparr>)"

text \<open>\<^verbatim>\<open>Math.round\<close>: the nearest integer, a tie going up.\<close>

definition Math_round :: "rat \<Rightarrow> int" where
  "Math_round x = \<lfloor>x + 1 / 2\<rfloor>"


section \<open>The graded tasks\<close>

record task =
  task_id :: string
  task_name :: string
  requirements :: "rule list \<Rightarrow> req list"

definition todoWeights :: "(string \<times> nat) list" where
  "todoWeights =
     [(''TODO 1'', 12), (''TODO 2'', 14), (''TODO 3'', 12), (''TODO 4'', 12), (''TODO 5'', 12),
      (''TODO 6'', 14), (''TODO 7'', 12), (''TODO 8'', 12), (''TODO 9'', 12)]"

definition totalWeight :: nat where
  "totalWeight = foldl (\<lambda>a b. a + b) 0 (map snd todoWeights)"

text \<open>\<^verbatim>\<open>todoWeights[t.id] || 0\<close>, for task ids that are keys of the table or name no
  property at all (names an object inherits, such as \<^verbatim>\<open>constructor\<close>, are outside the
  model).\<close>

definition weightOf :: "string \<Rightarrow> nat" where
  "weightOf i = (case map_of todoWeights i of None \<Rightarrow> 0 | Some w \<Rightarrow> w)"

definition hasRule :: "rule list \<Rightarrow> selectorMatcher \<Rightarrow> bool" where
  "hasRule rules m = (length (findMatchingRules rules m) > 0)"

definition todo1 :: "rule list \<Rightarrow> req list" where
  \<open>todo1 rules =
     (let hasP = hasRule rules (MString ''p'');
          hasSpan = hasRule rules (MString ''span'')
      in [req ''Has a "p { ... }" rule'' hasP ''Add a p selector rule.'',
          req ''p rule includes a color-related property''
            (ruleSatisfies rules (MString ''p'') (anyOf RELATED_color))
            ''Use a color property (e.g., color: ...).'',
          req ''p rule includes a font-size-related property''
            (ruleSatisfies rules (MString ''p'') (anyOf RELATED_fontSize))
            ''Use font-size (or font shorthand).'',
          req ''Has a "span { ... }" rule'' hasSpan ''Add a span selector rule.'',
          req ''span rule includes a color-related property''
            (ruleSatisfies rules (MString ''span'') (anyOf RELATED_color))
            ''Use a color property (e.g., color: ...).'',
          req ''span rule includes a font-size-related property''
            (ruleSatisfies rules (MString ''span'') (anyOf RELATED_fontSize))
            ''Use font-size (or font shorthand).''])\<close>

definition todo2 :: "rule list \<Rightarrow> req list" where
  \<open>todo2 rules =
     [req ''Has a ".username { ... }" rule'' (hasRule rules (MString ''.username'')) [],
      req ''.username includes a color-related property''
        (ruleSatisfies rules (MString ''.username'') (anyOf RELATED_color))
        ''Use a color property.'',
      req ''.username includes a font-weight-related property''
        (ruleSatisfies rules (MString ''.username'') (anyOf RELATED_fontWeight))
        ''Use font-weight (or font shorthand).'',
      req ''Has a ".blue-text { ... }" rule'' (hasRule rules (MString ''.blue-text'')) [],
      req ''.blue-text includes a color-related property''
        (ruleSatisfies rules (MString ''.blue-text'') (anyOf RELATED_color))
        ''Use a color property.'',
      req ''Has a ".red-text { ... }" rule'' (hasRule rules (MString ''.red-text'')) [],
      req ''.red-text includes a color-related property''
        (ruleSatisfies rules (MString ''.red-text'') (anyOf RELATED_color))
        ''Use a color property.'',
      req ''Has a ".highlight { ... }" rule'' (hasRule rules (MString ''.highlight'')) [],
      req ''.highlight includes a background-related property (background or background-color)''
        (ruleSatisfies rules (MString ''.highlight'') (anyOf RELATED_background))
        ''Use background or background-color.'',
      req ''.highlight includes a padding-related property (padding or padding-*)''
        (ruleSatisfies rules (MString ''.highlight'') (anyOf RELATED_padding))
        ''Use padding or padding-*.'']\<close>

definition todo3 :: "rule list \<Rightarrow> req list" where
  \<open>todo3 rules =
     [req ''Has a "#featured-user { ... }" rule'' (hasRule rules (MString ''#featured-user''))
        ''Add an ID selector rule.'',
      req ''#featured-user includes a color-related property''
        (ruleSatisfies rules (MString ''#featured-user'') (anyOf RELATED_color))
        ''Use a color property.'',
      req ''#featured-user includes a font-size-related property''
        (ruleSatisfies rules (MString ''#featured-user'') (anyOf RELATED_fontSize))
        ''Use font-size (or font shorthand).'']\<close>

text \<open>\<^verbatim>\<open>(sel) => sel.replace(/\s+/g, "") === "p.winner"\<close>\<close>

definition isPWinner :: "string \<Rightarrow> bool" where
  "isPWinner sel = (filter (\<lambda>c. \<not> isSpace c) sel = ''p.winner'')"

definition todo4 :: "rule list \<Rightarrow> req list" where
  \<open>todo4 rules =
     (let r1 = req ''Has a "p { ... }" rule with a color-related property''
                 (ruleSatisfies rules (MString ''p'') (anyOf RELATED_color))
                 ''Add p { color: ... }.'';
          r2 = req ''Has a ".winner { ... }" rule with a color-related property''
                 (ruleSatisfies rules (MString ''.winner'') (anyOf RELATED_color))
                 ''Add .winner { color: ... }.'';
          r3 = req ''Has a "#specificity-test { ... }" rule with a color-related property''
                 (ruleSatisfies rules (MString ''#specificity-test'') (anyOf RELATED_color))
                 ''Add #specificity-test { color: ... }.'';
          hasPWinner = ruleSatisfies rules (MFunction isPWinner) (anyOf RELATED_color)
      in [r1, r2, r3,
          req ''Has a "p.winner { ... }" rule with a color-related property'' hasPWinner
            ''Add p.winner { color: ... }.''])\<close>

text \<open>
  \<^verbatim>\<open>/:\s*[^;]+;?/.test(d)\<close>: behind some colon, \<^verbatim>\<open>\s*\<close> takes \<open>k\<close> of the whitespace
  characters that follow (any number up to the whole run, by backtracking) and the next
  character exists and is no semicolon.
\<close>

definition declaredAfterColon :: "string \<Rightarrow> bool" where
  "declaredAfterColon r =
     list_ex (\<lambda>k. case drop k r of [] \<Rightarrow> False | c # cs \<Rightarrow> c \<noteq> CHR '';'')
       [0 ..< Suc (length (takeWhile isSpace r))]"

fun someDeclaration :: "string \<Rightarrow> bool" where
  "someDeclaration [] = False"
| "someDeclaration (c # cs) = ((c = CHR '':'' \<and> declaredAfterColon cs) \<or> someDeclaration cs)"

definition todo5 :: "rule list \<Rightarrow> req list" where
  \<open>todo5 rules =
     (let r1 = req ''Has a ".important-test { ... }" rule'' (hasRule rules (MString ''.important-test''))
                 ''Add a class selector rule.'';
          hasImportant = ruleSatisfies rules (MString ''.important-test'')
                           \<lparr>anyProps = [], allProps = [], mustInclude = [''!important'']\<rparr>;
          r2 = req ''.important-test uses "!important" (on any property)'' hasImportant
                 ''Add !important (e.g., color: ... !important).'';
          r3 = req ''.important-test includes at least one declared property''
                 (let matches = findMatchingRules rules (MString ''.important-test'')
                  in list_ex (\<lambda>r. someDeclaration (decls r)) matches)
                 ''Add at least one property declaration.''
      in [r1, r2, r3])\<close>

text \<open>
  \<^verbatim>\<open>/^\.chat-container\s+\.message$/i\<close> and \<^verbatim>\<open>/^\.chat-container\s+\.message-time$/i\<close>:
  the first literal, at least one whitespace character, the second literal, the end of the
  text.
\<close>

definition descendantTest :: "string \<Rightarrow> string \<Rightarrow> string \<Rightarrow> bool" where
  "descendantTest a b sel =
     (case matchLiteral a sel of
        None \<Rightarrow> False
      | Some r \<Rightarrow>
          (case r of
             [] \<Rightarrow> False
           | c # cs \<Rightarrow> isSpace c \<and> matchLiteral b (dropWhile isSpace cs) = Some []))"

definition msgSelRe :: "string \<Rightarrow> bool" where
  "msgSelRe = descendantTest ''.chat-container'' ''.message''"

definition timeSelRe :: "string \<Rightarrow> bool" where
  "timeSelRe = descendantTest ''.chat-container'' ''.message-time''"

definition todo6 :: "rule list \<Rightarrow> req list" where
  \<open>todo6 rules =
     [req ''Has a ".chat-container .message { ... }" rule'' (hasRule rules (MRegExp msgSelRe))
        ''Use a descendant selector.'',
      req ''.chat-container .message includes a color-related property''
        (ruleSatisfies rules (MRegExp msgSelRe) (anyOf RELATED_color))
        ''Use a color property.'',
      req ''Has a ".chat-container .message-time { ... }" rule'' (hasRule rules (MRegExp timeSelRe))
        ''Use a descendant selector.'',
      req ''.chat-container .message-time includes a color-related property''
        (ruleSatisfies rules (MRegExp timeSelRe) (anyOf RELATED_color))
        ''Use a color property.'',
      req ''.chat-container .message-time includes a font-size-related property''
        (ruleSatisfies rules (MRegExp timeSelRe) (anyOf RELATED_fontSize))
        ''Use font-size (or font shorthand).'']\<close>

definition todo7 :: "rule list \<Rightarrow> req list" where
  \<open>todo7 rules =
     (let sendHover = ''.send-button:hover'';
          linkHover = ''.chat-link:hover''
      in [req (''Has a "'' @ sendHover @ '' { ... }" rule'') (hasRule rules (MString sendHover))
            ''Add :hover rule.'',
          req (sendHover @ '' includes a background-related property'')
            (ruleSatisfies rules (MString sendHover) (anyOf RELATED_background))
            ''Use background or background-color.'',
          req (sendHover @ '' includes a color-related property'')
            (ruleSatisfies rules (MString sendHover) (anyOf RELATED_color))
            ''Use a color property.'',
          req (''Has a "'' @ linkHover @ '' { ... }" rule'') (hasRule rules (MString linkHover))
            ''Add :hover rule.'',
          req (linkHover @ '' includes a color-related property'')
            (ruleSatisfies rules (MString linkHover) (anyOf RELATED_color))
            ''Use a color property.'',
          req (linkHover @ '' includes a text-decoration-related property'')
            (ruleSatisfies rules (MString linkHover) (anyOf RELATED_textDecoration))
            ''Use text-decoration (or related property).''])\<close>

definition todo8 :: "rule list \<Rightarrow> req list" where
  \<open>todo8 rules =
     (let s4 = ''h4.trending-tag'';
          s5 = ''h5.trending-tag'';
          s6 = ''h6.trending-tag'';
          has4 = hasRule rules (MString s4);
          has5 = hasRule rules (MString s5);
          has6 = hasRule rules (MString s6);
          r1 = req ''Defines styling for h4.trending-tag, h5.trending-tag, and h6.trending-tag (grouped or separate)''
                 (has4 \<and> has5 \<and> has6)
                 ''Ensure all three selectors exist (can be grouped with commas).'';
          colorOk = (ruleSatisfies rules (MString s4) (anyOf RELATED_color) \<or>
                     ruleSatisfies rules (MString s5) (anyOf RELATED_color) \<or>
                     ruleSatisfies rules (MString s6) (anyOf RELATED_color));
          familyOk = (ruleSatisfies rules (MString s4) (anyOf RELATED_fontFamily) \<or>
                      ruleSatisfies rules (MString s5) (anyOf RELATED_fontFamily) \<or>
                      ruleSatisfies rules (MString s6) (anyOf RELATED_fontFamily))
      in [r1,
          req ''Trending tag styles include a color-related property (on any of the three)'' colorOk
            ''Use color.'',
          req ''Trending tag styles include a font-family-related property (or font shorthand) (on any of the three)''
            familyOk ''Use font-family or font.''])\<close>

definition todo9 :: "rule list \<Rightarrow> req list" where
  \<open>todo9 rules =
     [req ''Has a "* { ... }" rule'' (hasRule rules (MString ''*'')) ''Add the universal selector.'',
      req ''* rule includes box-sizing''
        (ruleSatisfies rules (MString ''*'') (anyOf RELATED_boxSizing))
        ''Use box-sizing: ...'']\<close>

definition tasks :: "task list" where
  "tasks =
     [\<lparr>task_id = ''TODO 1'', task_name = ''Basic Element Selectors (p, span)'', requirements = todo1\<rparr>,
      \<lparr>task_id = ''TODO 2'',
       task_name = ''Class Selectors (.username, .blue-text, .red-text, .highlight)'',
       requirements = todo2\<rparr>,
      \<lparr>task_id = ''TODO 3'', task_name = ''ID Selector (#featured-user)'', requirements = todo3\<rparr>,
      \<lparr>task_id = ''TODO 4'',
       task_name = ''Specificity Battle (p, .winner, #specificity-test, p.winner)'',
       requirements = todo4\<rparr>,
      \<lparr>task_id = ''TODO 5'', task_name = ''!important Override (.important-test)'', requirements = todo5\<rparr>,
      \<lparr>task_id = ''TODO 6'',
       task_name = ''Descendant Selectors (.chat-container .message, .chat-container .message-time)'',
       requirements = todo6\<rparr>,
      \<lparr>task_id = ''TODO 7'',
       task_name = ''Pseudo-classes (:hover for .send-button and .chat-link)'',
       requirements = todo7\<rparr>,
      \<lparr>task_id = ''TODO 8'', task_name = ''Group Selectors (h4/h5/h6.trending-tag)'', requirements = todo8\<rparr>,
      \<lparr>task_id = ''TODO 9'', task_name = ''Universal Selector (*) with box-sizing'', requirements = todo9\<rparr>]"


section \<open>Latest student commit\<close>

text \<open>
  \<^verbatim>\<open>Number(s)\<close> on the texts the grader passes: surrounding whitespace is dropped, the empty
  text is 0, a run of decimal digits is its value. Every other text is \<open>None\<close> here
  (\<^verbatim>\<open>NaN\<close>, not finite); signs, fractions, exponents, hexadecimal literals and
  \<^verbatim>\<open>Infinity\<close> are outside the model, since \<^verbatim>\<open>git\<close> prints \<^verbatim>\<open>%ct\<close> as decimal digits.
  Values are exact.
\<close>

definition isDigit :: "char \<Rightarrow> bool" where
  "isDigit c = (let n = (of_char c :: nat) in 48 \<le> n \<and> n \<le> 57)"

definition digitsValue :: "string \<Rightarrow> int" where
  "digitsValue ds = foldl (\<lambda>acc c. 10 * acc + (of_char c - 48)) 0 ds"

definition Number :: "string \<Rightarrow> int option" where
  "Number s =
     (let t = trim s in
      if t = [] then Some 0
      else if list_all isDigit t then Some (digitsValue t)
      else None)"

definition botMarkers :: "string list" where
  "botMarkers =
     [''[bot]'', ''github-actions'', ''actions@github.com'', ''github classroom'', ''classroom[bot]'',
      ''dependabot'', ''autograding'', ''workflow'']"

definition isBot :: "string \<Rightarrow> bool" where
  "isBot hay = list_ex (\<lambda>m. includes_str hay m) botMarkers"

text \<open>\<^verbatim>\<open>parts[i] || ""\<close>\<close>

definition part :: "string list \<Rightarrow> nat \<Rightarrow> string" where
  "part parts i = (if i < length parts then parts ! i else [])"

definition lineHay :: "string \<Rightarrow> string" where
  "lineHay line =
     (let parts = split CHR ''|'' line;
          an = part parts 1;
          ae = part parts 2;
          cn = part parts 3;
          ce = part parts 4;
          subject = join CHR ''|'' (drop 5 parts)
      in toLowerCase (an @ '' '' @ ae @ '' '' @ cn @ '' '' @ ce @ '' '' @ subject))"

text \<open>
  The \<^verbatim>\<open>for (const line of lines)\<close> loop: the first line that is no bot line and whose
  first field is a finite number gives the result in milliseconds. \<^verbatim>\<open>split\<close> never
  returns an empty array, so \<^verbatim>\<open>parts[0]\<close> exists.
\<close>

fun firstStudentLine :: "string list \<Rightarrow> int option" where
  "firstStudentLine [] = None"
| "firstStudentLine (line # lines) =
     (let parts = split CHR ''|'' line;
          ct = part parts 0
      in if isBot (lineHay line) then firstStudentLine lines
         else (case Number ct of
                 None \<Rightarrow> firstStudentLine lines
               | Some seconds \<Rightarrow> Some (seconds * 1000)))"

text \<open>
  \<open>exec\<close> is \<^verbatim>\<open>execSync\<close> of the environment, as a function from the command text
  to the text the call returns; \<open>None\<close> is a call that throws, which the \<^verbatim>\<open>catch\<close>
  turns into \<^verbatim>\<open>null\<close>. The result \<open>None\<close> is \<^verbatim>\<open>null\<close>.
\<close>

definition getLatestStudentCommitEpochMs :: "(string \<Rightarrow> string option) \<Rightarrow> int option" where
  "getLatestStudentCommitEpochMs exec =
     (case exec ''git log --format=%ct|%an|%ae|%cn|%ce|%s -n 300'' of
        None \<Rightarrow> None
      | Some raw \<Rightarrow>
          (let out = trim raw in
           if out = [] then None
           else (case firstStudentLine (split CHR 0x0A out) of
                   Some ms \<Rightarrow> Some ms
                 | None \<Rightarrow>
                     (case exec ''git log -1 --format=%ct'' of
                        None \<Rightarrow> None
                      | Some raw1 \<Rightarrow>
                          (case Number (trim raw1) of
                             None \<Rightarrow> None
                           | Some seconds \<Rightarrow> Some (seconds * 1000))))))"

text \<open>\<^verbatim>\<open>Date.parse("2025-09-15T23:59:00+03:00")\<close>\<close>

definition DUE_EPOCH_MS :: int where
  "DUE_EPOCH_MS = 1757969940000"

text \<open>\<^verbatim>\<open>!commitMs\<close> holds for \<^verbatim>\<open>null\<close> and for 0.\<close>

definition wasSubmittedLate :: "(string \<Rightarrow> string option) \<Rightarrow> bool" where
  "wasSubmittedLate exec =
     (case getLatestStudentCommitEpochMs exec of
        None \<Rightarrow> False
      | Some commitMs \<Rightarrow> if commitMs = 0 then False else commitMs > DUE_EPOCH_MS)"

section \<open>Submission status and marks\<close>

definition TODO_BUCKET_MAX :: nat where
  "TODO_BUCKET_MAX = 80"

definition SUBMISSION_MAX :: nat where
  "SUBMISSION_MAX = 20"

definition TOTAL_MAX :: int where
  "TOTAL_MAX = 100"

text \<open>
  The located stylesheet: \<open>None\<close> when \<^verbatim>\<open>linkedCss\<close> is \<^verbatim>\<open>null\<close> or names no existing
  file, otherwise the text \<^verbatim>\<open>readTextSafe\<close> returns (the empty text when reading fails).
  How the file is located (link in \<^verbatim>\<open>index.html\<close>, default name, directory scan) is
  not part of the model.
\<close>

definition hasCss :: "string option \<Rightarrow> bool" where
  "hasCss css = (css \<noteq> None)"

definition cssCode :: "string option \<Rightarrow> string" where
  "cssCode css = (case css of None \<Rightarrow> [] | Some t \<Rightarrow> t)"

definition cssEmpty :: "string option \<Rightarrow> bool" where
  "cssEmpty css = (if hasCss css then isEmptyCss (cssCode css) else True)"

text \<open>Status codes: 0 on time, 1 late, 2 no submission or empty CSS file.\<close>

definition status :: "string option \<Rightarrow> bool \<Rightarrow> nat" where
  "status css late = (if \<not> hasCss css \<or> cssEmpty css then 2 else if late then 1 else 0)"

definition submissionMarks :: "nat \<Rightarrow> int" where
  "submissionMarks st = (if st = 2 then 0 else if st = 1 then 10 else 20)"

definition rules :: "string option \<Rightarrow> rule list" where
  "rules css = (if hasCss css \<and> \<not> cssEmpty css then parseCssRules (cssCode css) else [])"

section \<open>Grading the tasks\<close>

record taskResult =
  tr_id :: string
  tr_name :: string
  tr_ok :: nat
  tr_total :: nat
  tr_fraction :: rat
  tr_weight :: nat
  tr_earnedWeight :: rat
  tr_reqs :: "req list"

text \<open>
  The label of the placeholder has the arrow U+2192 in the source, written \<^verbatim>\<open>->\<close> here.
\<close>

definition placeholder :: req where
  "placeholder = req ''No submission / empty CSS -> cannot grade TODOs'' False []"

definition gradeTask :: "nat \<Rightarrow> rule list \<Rightarrow> task \<Rightarrow> taskResult" where
  "gradeTask st rs t =
     (let reqs = (if st = 2 then [placeholder] else requirements t rs);
          sc = scoreFromRequirements reqs;
          weight = weightOf (task_id t);
          earnedWeight = (if st = 2 then 0 else of_nat weight * sc_fraction sc)
      in \<lparr>tr_id = task_id t, tr_name = task_name t, tr_ok = sc_ok sc, tr_total = sc_total sc,
          tr_fraction = sc_fraction sc, tr_weight = weight, tr_earnedWeight = earnedWeight,
          tr_reqs = reqs\<rparr>)"

definition taskResults :: "task list \<Rightarrow> nat \<Rightarrow> rule list \<Rightarrow> taskResult list" where
  "taskResults ts st rs = map (gradeTask st rs) ts"

definition earnedWeightTotal :: "taskResult list \<Rightarrow> rat" where
  "earnedWeightTotal trs = foldl (\<lambda>sum r. sum + tr_earnedWeight r) 0 trs"

definition earnedTodoMarks :: "nat \<Rightarrow> taskResult list \<Rightarrow> int" where
  "earnedTodoMarks st trs =
     (if st = 2 then 0
      else Math_round ((of_nat TODO_BUCKET_MAX * earnedWeightTotal trs) / of_nat totalWeight))"

definition totalEarned :: "int \<Rightarrow> int \<Rightarrow> int" where
  "totalEarned todoMarks subMarks = min (todoMarks + subMarks) TOTAL_MAX"

text \<open>
  One run of the script on a task list \<open>ts\<close> (the script's own list is \<open>tasks\<close>), the
  located stylesheet and the \<^verbatim>\<open>execSync\<close> of the environment.
\<close>

record run =
  run_status :: nat
  run_submissionMarks :: int
  run_rules :: "rule list"
  run_taskResults :: "taskResult list"
  run_earnedTodoMarks :: int
  run_totalEarned :: int

definition grade :: "task list \<Rightarrow> string option \<Rightarrow> (string \<Rightarrow> string option) \<Rightarrow> run" where
  "grade ts css exec =
     (let late = wasSubmittedLate exec;
          st = status css late;
          sub = submissionMarks st;
          rs = rules css;
          trs = taskResults ts st rs;
          todo = earnedTodoMarks st trs
      in \<lparr>run_status = st, run_submissionMarks = sub, run_rules = rs, run_taskResults = trs,
          run_earnedTodoMarks = todo, run_totalEarned = totalEarned todo sub\<rparr>)"

section \<open>The wording of the specification\<close>

text \<open>
  The definitions of this section follow the words of the specification, not the code;
  the theorems below compare them with the code.
\<close>

text \<open>Spec wording ``empty/comments-only'': once the comments are removed, nothing but
  whitespace is left of the stylesheet.\<close>

definition spec_emptyOrCommentsOnly :: "string \<Rightarrow> bool" where
  "spec_emptyOrCommentsOnly css = list_all isSpace (stripCssComments css)"

text \<open>Spec wording ``a rule matching the selector query'': the selector of the rule is the
  normalised query string, or passes the pattern, or passes the predicate.\<close>

fun spec_selectorMatches :: "selectorMatcher \<Rightarrow> string \<Rightarrow> bool" where
  "spec_selectorMatches (MString s) sel = (sel = normalizeSelector s)"
| "spec_selectorMatches (MRegExp re) sel = re sel"
| "spec_selectorMatches (MFunction f) sel = f sel"
| "spec_selectorMatches MOther sel = False"

text \<open>Spec wording ``trim, lowercase, collapse internal whitespace to single spaces''.\<close>

definition spec_normalize :: "string \<Rightarrow> string" where
  "spec_normalize s = collapseWs (toLowerCase (trim s))"

text \<open>
  Spec wording ``contains the property name immediately followed by an optional run of
  whitespace and a colon, matched case-insensitively at a word boundary'': the declaration
  text splits into a part before, a text equal to the name up to case, whitespace, the
  colon and a rest, and exactly one of the two characters around the start of the name is
  a word character (a missing character counts as none).
\<close>

definition spec_wordBoundary :: "string \<Rightarrow> string \<Rightarrow> bool" where
  "spec_wordBoundary before after =
     ((before \<noteq> [] \<and> isWordChar (last before)) \<noteq> (after \<noteq> [] \<and> isWordChar (hd after)))"

definition spec_hasProperty :: "string \<Rightarrow> string \<Rightarrow> bool" where
  "spec_hasProperty d p =
     (\<exists>pre m ws post.
        d = pre @ m @ ws @ CHR '':'' # post \<and> toLowerCase m = toLowerCase p \<and> list_all isSpace ws \<and>
        spec_wordBoundary pre (m @ ws @ CHR '':'' # post))"

text \<open>Spec wording ``fraction = satisfiedCount / totalCount (0 if a task has zero
  requirements)''.\<close>

definition spec_fraction :: "req list \<Rightarrow> rat" where
  "spec_fraction reqs =
     (if length reqs = 0 then 0 else of_nat (length (filter ok reqs)) / of_nat (length reqs))"

section \<open>The environment of the commit query\<close>

text \<open>
  \<^verbatim>\<open>execSync(command)\<close> hands the command text to a shell (\<^verbatim>\<open>/bin/sh -c\<close>) and returns
  what the command writes to standard output; it throws when the exit status is not 0.
  The two command texts of the grader contain no quotes and no escapes, so every
  \<^verbatim>\<open>|\<close> in them is the pipe operator of the shell: the text is a pipeline, its
  output and its exit status are those of the last stage, and a stage whose command name
  is no program ends with status 127 (``not found'') and no output. This is a model of the
  environment, not of code of the grader. The only program it knows is \<^verbatim>\<open>git\<close>, and
  of \<^verbatim>\<open>git\<close> only the invocation \<^verbatim>\<open>git log -1 --format=%ct\<close>, which prints the
  committer time of the newest commit (a non-negative number) in decimal and fails in a
  repository without commits; \<open>None\<close> stands for a call of \<^verbatim>\<open>execSync\<close> that throws.
\<close>

record commit =
  c_ct :: int
  c_an :: string
  c_ae :: string
  c_cn :: string
  c_ce :: string
  c_subject :: string

text \<open>The history of the repository, newest commit first; \<open>None\<close> when there is no
  repository.\<close>

type_synonym history = "commit list option"

definition shellStages :: "string \<Rightarrow> string list" where
  "shellStages command = split CHR ''|'' command"

definition commandName :: "string \<Rightarrow> string" where
  "commandName stage = takeWhile (\<lambda>c. \<not> isSpace c) (dropWhile isSpace stage)"

function showDecimal :: "int \<Rightarrow> string" where
  "showDecimal n =
     (if n < 10 then [char_of (48 + n)] else showDecimal (n div 10) @ [char_of (48 + n mod 10)])"
  by pat_completeness auto
termination
  by (relation "measure nat") auto

definition gitProgram :: "history \<Rightarrow> string \<Rightarrow> string option" where
  "gitProgram h stage =
     (if trim stage = ''git log -1 --format=%ct'' then
        (case h of
           None \<Rightarrow> None
         | Some [] \<Rightarrow> None
         | Some (c # cs) \<Rightarrow> Some (showDecimal (c_ct c) @ [CHR 0x0A]))
      else None)"

definition execSync :: "history \<Rightarrow> string \<Rightarrow> string option" where
  "execSync h command =
     (let stage = last (shellStages command) in
      if commandName stage = ''git'' then gitProgram h stage else None)"

text \<open>
  What the first command was written to print: one line
  \<^verbatim>\<open>%ct|%an|%ae|%cn|%ce|%s\<close> for each of the 300 newest commits. \<open>execSyncMeant\<close>
  is an environment in which the first command text does print these lines; no shell
  behaves so.
\<close>

definition commitLine :: "commit \<Rightarrow> string" where
  "commitLine c =
     showDecimal (c_ct c) @ ''|'' @ c_an c @ ''|'' @ c_ae c @ ''|'' @ c_cn c @ ''|'' @ c_ce c @ ''|'' @
     c_subject c"

definition execSyncMeant :: "history \<Rightarrow> string \<Rightarrow> string option" where
  "execSyncMeant h command =
     (if command = ''git log --format=%ct|%an|%ae|%cn|%ce|%s -n 300'' then
        (case h of
           None \<Rightarrow> None
         | Some [] \<Rightarrow> None
         | Some (c # cs) \<Rightarrow> Some (concat (map (\<lambda>c. commitLine c @ [CHR 0x0A]) (take 300 (c # cs)))))
      else execSync h command)"

text \<open>
  Commits as \<^verbatim>\<open>git\<close> prints them: a committer time that is not negative, names and
  addresses without \<^verbatim>\<open>|\<close>, no line break in any field, and a subject without
  whitespace at its end.
\<close>

definition wfCommit :: "commit \<Rightarrow> bool" where
  "wfCommit c =
     (0 \<le> c_ct c \<and>
      CHR ''|'' \<notin> set (c_an c @ c_ae c @ c_cn c @ c_ce c) \<and>
      CHR 0x0A \<notin> set (c_an c @ c_ae c @ c_cn c @ c_ce c @ c_subject c) \<and>
      (c_subject c = [] \<or> \<not> isSpace (last (c_subject c))))"

text \<open>
  Spec wording: the timestamp comes from the latest entry among the most recent 300
  commits whose combined author, committer and subject text holds no automation marker,
  compared without regard to case; when every entry of the window is automated, from the
  most recent commit of any kind; there is none when the history is unavailable or empty.
\<close>

definition spec_automated :: "commit \<Rightarrow> bool" where
  "spec_automated c =
     list_ex
       (\<lambda>m. includes_str
              (toLowerCase (c_an c @ '' '' @ c_ae c @ '' '' @ c_cn c @ '' '' @ c_ce c @ '' '' @ c_subject c)) m)
       botMarkers"

definition spec_latestStudentCommit :: "history \<Rightarrow> int option" where
  "spec_latestStudentCommit h =
     (case h of
        None \<Rightarrow> None
      | Some [] \<Rightarrow> None
      | Some (newest # older) \<Rightarrow>
          (case find (\<lambda>c. \<not> spec_automated c) (take 300 (newest # older)) of
             Some c \<Rightarrow> Some (c_ct c * 1000)
           | None \<Rightarrow> Some (c_ct newest * 1000)))"

text \<open>A history with a workflow commit on top of a student commit made one second after the
  deadline.\<close>

definition lateHistory :: history where
  "lateHistory =
     Some [\<lparr>c_ct = 1757970000, c_an = ''github-actions[bot]'', c_ae = ''actions@github.com'',
            c_cn = ''GitHub'', c_ce = ''noreply@github.com'', c_subject = ''Autograding report''\<rparr>,
           \<lparr>c_ct = 1757969941, c_an = ''student'', c_ae = ''student@example.org'',
            c_cn = ''student'', c_ce = ''student@example.org'', c_subject = ''finish the lab''\<rparr>]"

section \<open>Bounds of the weighted score\<close>

lemma foldl_add_sum_list:
  "foldl (\<lambda>sum r. sum + f r) a xs = a + sum_list (map f xs)"
  by (induction xs arbitrary: a) (simp_all add: add.assoc)

lemma totalWeight_value: "totalWeight = 112"
  by (simp add: totalWeight_def todoWeights_def)

lemma fraction_bounds:
  "0 \<le> sc_fraction (scoreFromRequirements reqs) \<and> sc_fraction (scoreFromRequirements reqs) \<le> 1"
proof -
  have "length (filter ok reqs) \<le> length reqs" by simp
  then show ?thesis
    by (simp add: scoreFromRequirements_def Let_def divide_le_eq_1)
qed

lemma earnedWeight_bounds:
  "0 \<le> tr_earnedWeight (gradeTask st rs t) \<and>
   tr_earnedWeight (gradeTask st rs t) \<le> of_nat (weightOf (task_id t))"
proof (cases "st = 2")
  case True
  then show ?thesis by (simp add: gradeTask_def Let_def)
next
  case False
  let ?f = "sc_fraction (scoreFromRequirements (requirements t rs))"
  let ?w = "of_nat (weightOf (task_id t)) :: rat"
  have f: "0 \<le> ?f \<and> ?f \<le> 1" by (rule fraction_bounds)
  have w: "0 \<le> ?w" by simp
  have "?w * ?f \<le> ?w * 1" using f w by (intro mult_left_mono) simp_all
  moreover have "0 \<le> ?w * ?f" using f w by simp
  ultimately show ?thesis using False by (simp add: gradeTask_def Let_def)
qed

lemma earnedWeightTotal_sum:
  "earnedWeightTotal (taskResults ts st rs) = sum_list (map (\<lambda>t. tr_earnedWeight (gradeTask st rs t)) ts)"
  by (simp add: earnedWeightTotal_def taskResults_def foldl_add_sum_list comp_def)

lemma earnedWeightTotal_bounds:
  "0 \<le> earnedWeightTotal (taskResults ts st rs) \<and>
   earnedWeightTotal (taskResults ts st rs) \<le> of_nat (sum_list (map (\<lambda>t. weightOf (task_id t)) ts))"
  unfolding earnedWeightTotal_sum
proof (induction ts)
  case Nil
  then show ?case by simp
next
  case (Cons t ts)
  then show ?case using earnedWeight_bounds [of st rs t] by simp
qed

lemma tasks_weight_sum: "sum_list (map (\<lambda>t. weightOf (task_id t)) tasks) = 112"
  by (simp add: tasks_def weightOf_def todoWeights_def)

lemma earnedTodoMarks_tasks_bounds:
  "0 \<le> earnedTodoMarks st (taskResults tasks st rs) \<and> earnedTodoMarks st (taskResults tasks st rs) \<le> 80"
proof (cases "st = 2")
  case True
  then show ?thesis by (simp add: earnedTodoMarks_def)
next
  case False
  let ?S = "earnedWeightTotal (taskResults tasks st rs)"
  have b: "0 \<le> ?S \<and> ?S \<le> 112"
    using earnedWeightTotal_bounds [of tasks st rs] by (simp add: tasks_weight_sum)
  have "(80 * ?S) / 112 \<le> 80" using b by simp
  moreover have "0 \<le> (80 * ?S) / 112" using b by simp
  ultimately have "0 \<le> Math_round ((80 * ?S) / 112) \<and> Math_round ((80 * ?S) / 112) \<le> 80"
    unfolding Math_round_def by (simp add: floor_le_iff le_floor_iff)
  then show ?thesis using False
    by (simp add: earnedTodoMarks_def TODO_BUCKET_MAX_def totalWeight_value)
qed

lemma fraction_oks:
  "sc_fraction (scoreFromRequirements reqs) =
     (if map ok reqs = [] then 0
      else of_nat (length (filter id (map ok reqs))) / of_nat (length (map ok reqs)))"
  by (simp add: scoreFromRequirements_def Let_def filter_map comp_def)

lemma earnedWeightTotal_oks:
  "earnedWeightTotal (taskResults ts st rs) =
     (if st = 2 then 0
      else sum_list (map (\<lambda>(w, bs). of_nat w *
                            (if bs = [] then 0
                             else of_nat (length (filter id bs)) / of_nat (length bs)))
                      (map (\<lambda>t. (weightOf (task_id t), map ok (requirements t rs))) ts)))"
proof -
  have "sum_list (map (\<lambda>t. tr_earnedWeight (gradeTask 2 rs t)) ts) = 0"
    by (induction ts) (simp_all add: gradeTask_def Let_def)
  then show ?thesis
    unfolding earnedWeightTotal_sum
    by (simp add: gradeTask_def Let_def fraction_oks comp_def del: map_is_Nil_conv)
qed

lemma Math_round_eq_iff: "Math_round x = n \<longleftrightarrow> of_int n \<le> x + 1 / 2 \<and> x + 1 / 2 < of_int n + 1"
  by (simp add: Math_round_def floor_eq_iff)

lemma submissionMarks_bounds: "0 \<le> submissionMarks st \<and> submissionMarks st \<le> 20"
  by (simp add: submissionMarks_def)

text \<open>
  Claim C7. The final score of a run is the TODO bucket value plus the submission-status
  component, clamped at the overall maximum 100. Whenever the bucket value is at most 80
  and the status component at most 20, the sum is at most 100 and the clamp changes
  nothing. The status component of every run is at most 20, and with the script's own task
  list the bucket value is at most 80.
\<close>

theorem total_score_clamp:
  "run_totalEarned (grade ts css exec) =
     min (run_earnedTodoMarks (grade ts css exec) + run_submissionMarks (grade ts css exec))
         TOTAL_MAX
   \<and> (run_earnedTodoMarks (grade ts css exec) \<le> int TODO_BUCKET_MAX \<and>
      run_submissionMarks (grade ts css exec) \<le> int SUBMISSION_MAX \<longrightarrow>
        run_earnedTodoMarks (grade ts css exec) + run_submissionMarks (grade ts css exec)
          \<le> TOTAL_MAX \<and>
        run_totalEarned (grade ts css exec) =
          run_earnedTodoMarks (grade ts css exec) + run_submissionMarks (grade ts css exec))
   \<and> run_submissionMarks (grade ts css exec) \<le> int SUBMISSION_MAX
   \<and> run_earnedTodoMarks (grade tasks css exec) \<le> int TODO_BUCKET_MAX"
proof -
  have a: "run_totalEarned (grade ts css exec) =
     min (run_earnedTodoMarks (grade ts css exec) + run_submissionMarks (grade ts css exec))
         TOTAL_MAX"
    by (simp add: grade_def Let_def totalEarned_def)
  have b: "run_submissionMarks (grade ts css exec) \<le> int SUBMISSION_MAX"
    using submissionMarks_bounds by (simp add: grade_def Let_def SUBMISSION_MAX_def)
  have c: "run_earnedTodoMarks (grade tasks css exec) \<le> int TODO_BUCKET_MAX"
    using earnedTodoMarks_tasks_bounds by (simp add: grade_def Let_def TODO_BUCKET_MAX_def)
  show ?thesis using a b c
    by (simp add: TOTAL_MAX_def TODO_BUCKET_MAX_def SUBMISSION_MAX_def)
qed

theorem total_score_clamp_witness:
  "run_earnedTodoMarks (grade tasks (Some ''p{color:red}'') (\<lambda>command. None)) \<le> int TODO_BUCKET_MAX
   \<and> run_submissionMarks (grade tasks (Some ''p{color:red}'') (\<lambda>command. None)) \<le> int SUBMISSION_MAX
   \<and> run_totalEarned (grade tasks (Some ''p{color:red}'') (\<lambda>command. None)) = 25"
proof -
  have q: "map (\<lambda>t. (weightOf (task_id t), map ok (requirements t (rules (Some ''p{color:red}''))))) tasks =
     [(12, [True, True, False, False, False, False]),
      (14, [False, False, False, False, False, False, False, False, False, False]),
      (12, [False, False, False]),
      (12, [True, False, False, False]),
      (12, [False, False, False]),
      (14, [False, False, False, False, False]),
      (12, [False, False, False, False, False, False]),
      (12, [False, False, False]),
      (12, [False, False])]"
    by code_simp
  have st: "status (Some ''p{color:red}'') (wasSubmittedLate (\<lambda>command. None)) = 0"
    by code_simp
  have e: "earnedWeightTotal (taskResults tasks 0 (rules (Some ''p{color:red}''))) = 7"
    unfolding earnedWeightTotal_oks q by simp
  have todo: "earnedTodoMarks 0 (taskResults tasks 0 (rules (Some ''p{color:red}''))) = 5"
    unfolding earnedTodoMarks_def e
    by (simp add: Math_round_eq_iff totalWeight_value TODO_BUCKET_MAX_def)
  have v: "run_earnedTodoMarks (grade tasks (Some ''p{color:red}'') (\<lambda>command. None)) = 5
           \<and> run_submissionMarks (grade tasks (Some ''p{color:red}'') (\<lambda>command. None)) = 20"
    unfolding grade_def Let_def st
    by (simp add: todo submissionMarks_def)
  show ?thesis
    using v total_score_clamp [of tasks "Some ''p{color:red}''" "\<lambda>command. None"]
    by (simp add: TOTAL_MAX_def TODO_BUCKET_MAX_def SUBMISSION_MAX_def)
qed

section \<open>Runs classified as missing\<close>

lemma placeholder_score: "scoreFromRequirements [placeholder] = \<lparr>sc_ok = 0, sc_total = 1, sc_fraction = 0\<rparr>"
  by (simp add: scoreFromRequirements_def placeholder_def req_def)

lemma gradeTask_missing:
  "gradeTask 2 rs t =
     \<lparr>tr_id = task_id t, tr_name = task_name t, tr_ok = 0, tr_total = 1, tr_fraction = 0,
      tr_weight = weightOf (task_id t), tr_earnedWeight = 0, tr_reqs = [placeholder]\<rparr>"
  by (simp add: gradeTask_def Let_def placeholder_score)

text \<open>
  Claim C6. In a run with status 2 (missing) there is one result per task, and each
  result has the single placeholder requirement, which is not satisfied, whatever the
  task's own requirement builder would return; each earned weight is 0, the TODO bucket
  value is 0, the submission component is 0 and the final total is 0.
\<close>

theorem missing_run_zero:
  assumes "run_status (grade ts css exec) = 2"
  shows "map tr_id (run_taskResults (grade ts css exec)) = map task_id ts
       \<and> (\<forall>r \<in> set (run_taskResults (grade ts css exec)).
            tr_reqs r = [placeholder] \<and> tr_ok r = 0 \<and> tr_fraction r = 0 \<and> tr_earnedWeight r = 0)
       \<and> \<not> ok placeholder
       \<and> run_earnedTodoMarks (grade ts css exec) = 0
       \<and> run_submissionMarks (grade ts css exec) = 0
       \<and> run_totalEarned (grade ts css exec) = 0"
proof -
  from assms have st: "status css (wasSubmittedLate exec) = 2"
    by (simp add: grade_def Let_def)
  have trs: "run_taskResults (grade ts css exec) = map (gradeTask 2 (rules css)) ts"
    using st by (simp add: grade_def Let_def taskResults_def)
  have ids: "map tr_id (run_taskResults (grade ts css exec)) = map task_id ts"
    unfolding trs by (simp add: gradeTask_missing)
  have each: "\<forall>r \<in> set (run_taskResults (grade ts css exec)).
            tr_reqs r = [placeholder] \<and> tr_ok r = 0 \<and> tr_fraction r = 0 \<and> tr_earnedWeight r = 0"
    unfolding trs by (auto simp: gradeTask_missing)
  have todo: "run_earnedTodoMarks (grade ts css exec) = 0"
    using st by (simp add: grade_def Let_def earnedTodoMarks_def)
  have sub: "run_submissionMarks (grade ts css exec) = 0"
    using st by (simp add: grade_def Let_def submissionMarks_def)
  have tot: "run_totalEarned (grade ts css exec) = 0"
    using st by (simp add: grade_def Let_def earnedTodoMarks_def submissionMarks_def totalEarned_def
        TOTAL_MAX_def)
  have "\<not> ok placeholder" by (simp add: placeholder_def req_def)
  with ids each todo sub tot show ?thesis by blast
qed

theorem missing_run_zero_witness:
  "run_status (grade tasks None (\<lambda>command. None)) = 2
   \<and> map tr_id (run_taskResults (grade tasks None (\<lambda>command. None))) = map task_id tasks
   \<and> map tr_reqs (run_taskResults (grade tasks None (\<lambda>command. None))) = replicate 9 [placeholder]
   \<and> map tr_earnedWeight (run_taskResults (grade tasks None (\<lambda>command. None))) = replicate 9 0
   \<and> run_totalEarned (grade tasks None (\<lambda>command. None)) = 0"
proof -
  have h: "run_status (grade tasks None (\<lambda>command. None)) = 2"
    by (simp add: grade_def Let_def status_def hasCss_def)
  note m = missing_run_zero [OF h]
  from m have "length (map tr_id (run_taskResults (grade tasks None (\<lambda>command. None)))) = length (map task_id tasks)"
    by simp
  then have n: "length (run_taskResults (grade tasks None (\<lambda>command. None))) = 9"
    by (simp add: tasks_def)
  have a: "map tr_reqs (run_taskResults (grade tasks None (\<lambda>command. None))) = replicate 9 [placeholder]"
    using m n by (intro replicate_eqI) auto
  have b: "map tr_earnedWeight (run_taskResults (grade tasks None (\<lambda>command. None))) = replicate 9 0"
    using m n by (intro replicate_eqI) auto
  from m h a b show ?thesis by blast
qed

section \<open>Empty stylesheets and the status of a run\<close>

lemma collapseWs_spaces: "list_all isSpace s \<Longrightarrow> collapseWs s = (if s = [] then [] else '' '')"
proof (cases s)
  case Nil
  then show ?thesis by simp
next
  case (Cons c cs)
  assume "list_all isSpace s"
  with Cons have c: "isSpace c" and d: "dropWhile isSpace cs = []"
    by (simp_all add: list_all_iff dropWhile_eq_Nil_conv)
  show ?thesis unfolding Cons by (simp add: c d)
qed

lemma compactWs_spaces: "list_all isSpace s \<Longrightarrow> compactWs s = []"
  by (simp add: compactWs_def collapseWs_spaces trim_def isSpace_def)

lemma run_status_eq: "run_status (grade ts css exec) = status css (wasSubmittedLate exec)"
  by (simp add: grade_def Let_def)

lemma status_missing_iff:
  "status css late = 2 \<longleftrightarrow>
     (css = None \<or> (\<exists>t. css = Some t \<and> length (compactWs (stripCssComments t)) < 10))"
  by (cases css) (simp_all add: status_def hasCss_def cssEmpty_def cssCode_def isEmptyCss_def Let_def)

lemma missing_total: "run_status (grade ts css exec) = 2 \<Longrightarrow> run_totalEarned (grade ts css exec) = 0"
  by (simp add: grade_def Let_def earnedTodoMarks_def submissionMarks_def totalEarned_def TOTAL_MAX_def)

text \<open>
  Claim C10. A located stylesheet counts as empty, and the run gets status 2, exactly when
  its text is shorter than 10 characters once comments are stripped and whitespace is
  compacted. The stylesheet \<^verbatim>\<open>i{top:0}\<close> holds one well-formed rule and has 8 such
  characters: the run has status 2 and the total 0.
\<close>

theorem short_stylesheet_missing:
  "(cssEmpty (Some css) \<longleftrightarrow> length (compactWs (stripCssComments css)) < 10)
   \<and> (run_status (grade ts (Some css) exec) = 2 \<longleftrightarrow>
        length (compactWs (stripCssComments css)) < 10)
   \<and> parseCssRules ''i{top:0}'' = [\<lparr>selector = ''i'', decls = ''top:0''\<rparr>]
   \<and> length (compactWs (stripCssComments ''i{top:0}'')) = 8
   \<and> run_status (grade ts (Some ''i{top:0}'') exec) = 2
   \<and> run_totalEarned (grade ts (Some ''i{top:0}'') exec) = 0"
proof -
  have a: "cssEmpty (Some css) \<longleftrightarrow> length (compactWs (stripCssComments css)) < 10"
    by (simp add: cssEmpty_def hasCss_def cssCode_def isEmptyCss_def Let_def)
  have gen: "run_status (grade ts (Some c) exec) = 2 \<longleftrightarrow>
        length (compactWs (stripCssComments c)) < 10" for c
    by (simp add: run_status_eq status_missing_iff)
  have b: "run_status (grade ts (Some css) exec) = 2 \<longleftrightarrow>
        length (compactWs (stripCssComments css)) < 10"
    by (rule gen)
  have c: "parseCssRules ''i{top:0}'' = [\<lparr>selector = ''i'', decls = ''top:0''\<rparr>]"
    by code_simp
  have d: "length (compactWs (stripCssComments ''i{top:0}'')) = 8"
    by code_simp
  have e: "run_status (grade ts (Some ''i{top:0}'') exec) = 2"
    using gen [of "''i{top:0}''"] d by simp
  from a b c d e missing_total [OF e] show ?thesis by blast
qed

text \<open>
  Claim C3, as the code has it. The status is 2 (missing) exactly when no stylesheet is
  located or the located text, with comments stripped and whitespace compacted, is shorter
  than 10 characters; every empty or comments-only stylesheet is such a text. Otherwise
  the status is 1 (late) exactly when the commit query yields a timestamp after the
  deadline, and 0 (on time) exactly when it yields no timestamp or one at or before the
  deadline.
\<close>

theorem status_classification:
  "(run_status (grade ts css exec) = 2 \<longleftrightarrow>
      (css = None \<or> (\<exists>t. css = Some t \<and> length (compactWs (stripCssComments t)) < 10)))
   \<and> (\<forall>t. css = Some t \<and> spec_emptyOrCommentsOnly t \<longrightarrow> run_status (grade ts css exec) = 2)
   \<and> (run_status (grade ts css exec) \<noteq> 2 \<longrightarrow>
        (run_status (grade ts css exec) = 1 \<longleftrightarrow>
           (\<exists>ms. getLatestStudentCommitEpochMs exec = Some ms \<and> ms > DUE_EPOCH_MS))
      \<and> (run_status (grade ts css exec) = 0 \<longleftrightarrow>
           (getLatestStudentCommitEpochMs exec = None \<or>
            (\<exists>ms. getLatestStudentCommitEpochMs exec = Some ms \<and> ms \<le> DUE_EPOCH_MS))))"
proof -
  have a: "run_status (grade ts css exec) = 2 \<longleftrightarrow>
      (css = None \<or> (\<exists>t. css = Some t \<and> length (compactWs (stripCssComments t)) < 10))"
    by (simp add: run_status_eq status_missing_iff)
  have b: "\<forall>t. css = Some t \<and> spec_emptyOrCommentsOnly t \<longrightarrow> run_status (grade ts css exec) = 2"
  proof (intro allI impI)
    fix t
    assume h: "css = Some t \<and> spec_emptyOrCommentsOnly t"
    then have "compactWs (stripCssComments t) = []"
      by (simp add: spec_emptyOrCommentsOnly_def compactWs_spaces)
    with h show "run_status (grade ts css exec) = 2"
      by (simp add: run_status_eq status_missing_iff)
  qed
  have late: "wasSubmittedLate exec \<longleftrightarrow>
      (\<exists>ms. getLatestStudentCommitEpochMs exec = Some ms \<and> ms > DUE_EPOCH_MS)"
    by (cases "getLatestStudentCommitEpochMs exec")
       (auto simp: wasSubmittedLate_def DUE_EPOCH_MS_def)
  have c: "run_status (grade ts css exec) \<noteq> 2 \<longrightarrow>
        (run_status (grade ts css exec) = 1 \<longleftrightarrow> wasSubmittedLate exec)
      \<and> (run_status (grade ts css exec) = 0 \<longleftrightarrow> \<not> wasSubmittedLate exec)"
    by (simp add: run_status_eq status_def)
  have d: "\<not> wasSubmittedLate exec \<longleftrightarrow>
      (getLatestStudentCommitEpochMs exec = None \<or>
            (\<exists>ms. getLatestStudentCommitEpochMs exec = Some ms \<and> ms \<le> DUE_EPOCH_MS))"
    unfolding late by (cases "getLatestStudentCommitEpochMs exec") auto
  from a b c d late show ?thesis by blast
qed

theorem status_classification_witness:
  "spec_emptyOrCommentsOnly ''/* todo */''
   \<and> run_status (grade tasks (Some ''/* todo */'') (\<lambda>command. None)) = 2
   \<and> run_status (grade tasks (Some ''p{color:red}'') (\<lambda>command. None)) \<noteq> 2
   \<and> getLatestStudentCommitEpochMs (\<lambda>command. None) = None
   \<and> run_status (grade tasks (Some ''p{color:red}'') (\<lambda>command. None)) = 0"
proof -
  have e: "spec_emptyOrCommentsOnly ''/* todo */''"
    by code_simp
  have n: "run_status (grade tasks (Some ''p{color:red}'') (\<lambda>command. None)) \<noteq> 2"
    by (simp add: run_status_eq status_def) code_simp
  have g: "getLatestStudentCommitEpochMs (\<lambda>command. None) = None"
    by (simp add: getLatestStudentCommitEpochMs_def)
  show ?thesis
    using e n g
      status_classification [of tasks "Some ''/* todo */''" "\<lambda>command. None"]
      status_classification [of tasks "Some ''p{color:red}''" "\<lambda>command. None"]
    by simp
qed

text \<open>
  Claim C3 as stated fails: the located stylesheet \<^verbatim>\<open>i{top:0}\<close> is neither empty nor made
  of comments only, and the run has status 2.
\<close>

theorem status_missing_counterexample:
  "\<not> (run_status (grade tasks (Some ''i{top:0}'') (\<lambda>command. None)) = 2 \<longleftrightarrow>
       (Some ''i{top:0}'' = (None :: string option) \<or> spec_emptyOrCommentsOnly ''i{top:0}''))"
proof -
  have a: "run_status (grade tasks (Some ''i{top:0}'') (\<lambda>command. None)) = 2"
    by (simp add: run_status_eq status_def) code_simp
  have b: "\<not> spec_emptyOrCommentsOnly ''i{top:0}''"
    by code_simp
  from a b show ?thesis by simp
qed

section \<open>The weighted score\<close>

lemma totalWeight_sum: "totalWeight = sum_list (map snd todoWeights)"
  by (simp add: totalWeight_def todoWeights_def)

lemma score_spec:
  "scoreFromRequirements reqs =
     \<lparr>sc_ok = length (filter ok reqs), sc_total = length reqs, sc_fraction = spec_fraction reqs\<rparr>"
  by (simp add: scoreFromRequirements_def spec_fraction_def Let_def)

lemma gradeTask_graded:
  "st \<noteq> 2 \<Longrightarrow>
     gradeTask st rs t =
       \<lparr>tr_id = task_id t, tr_name = task_name t, tr_ok = length (filter ok (requirements t rs)),
        tr_total = length (requirements t rs), tr_fraction = spec_fraction (requirements t rs),
        tr_weight = weightOf (task_id t),
        tr_earnedWeight = of_nat (weightOf (task_id t)) * spec_fraction (requirements t rs),
        tr_reqs = requirements t rs\<rparr>"
  by (simp add: gradeTask_def Let_def score_spec)

lemma earnedTodoMarks_graded:
  assumes "st \<noteq> 2"
  shows "earnedTodoMarks st (taskResults ts st rs) =
           Math_round (of_nat TODO_BUCKET_MAX *
                       (\<Sum>t\<leftarrow>ts. of_nat (weightOf (task_id t)) * spec_fraction (requirements t rs))
                       / of_nat (sum_list (map snd todoWeights)))"
  using assms
  by (simp add: earnedTodoMarks_def earnedWeightTotal_sum gradeTask_graded totalWeight_sum)

lemma sum_list_single_task:
  "distinct (map task_id ts) \<Longrightarrow> t \<in> set ts \<Longrightarrow>
   (\<forall>u \<in> set ts. task_id u \<noteq> task_id t \<longrightarrow> f u = (0 :: rat)) \<Longrightarrow>
     sum_list (map f ts) = f t"
proof (induction ts)
  case Nil
  then show ?case by simp
next
  case (Cons a ts)
  show ?case
  proof (cases "task_id a = task_id t")
    case True
    with Cons.prems(1) have notin: "t \<notin> set ts"
      by (metis distinct.simps(2) image_eqI list.simps(9) set_map)
    with Cons.prems(2) have at: "a = t" by simp
    have "\<forall>u \<in> set ts. task_id u \<noteq> task_id t"
      using Cons.prems(1) True by (metis distinct.simps(2) image_eqI list.simps(9) set_map)
    with Cons.prems(3) have "\<forall>u \<in> set ts. f u = 0" by simp
    then have "sum_list (map f ts) = 0"
      by (induction ts) simp_all
    with at show ?thesis by simp
  next
    case False
    with Cons.prems have "f a = 0" and "t \<in> set ts" and "distinct (map task_id ts)"
      and "\<forall>u \<in> set ts. task_id u \<noteq> task_id t \<longrightarrow> f u = 0"
      by auto
    with Cons.IH show ?thesis by simp
  qed
qed

lemma tasks_distinct: "distinct (map task_id tasks)"
  by (simp add: tasks_def)

lemma spec_fraction_none: "filter ok reqs = [] \<Longrightarrow> spec_fraction reqs = 0"
  by (simp add: spec_fraction_def)

lemma filter_ok_map: "filter ok reqs = [] \<longleftrightarrow> filter id (map ok reqs) = []"
  by (simp add: filter_map comp_def)

lemma spec_fraction_oks:
  "spec_fraction reqs =
     (if map ok reqs = [] then 0
      else of_nat (length (filter id (map ok reqs))) / of_nat (length (map ok reqs)))"
  by (simp add: spec_fraction_def filter_map comp_def)

lemma sole_task_bucket:
  assumes st: "st \<noteq> 2" and t: "t \<in> set tasks"
    and four: "length (requirements t rs) = 4" and two: "length (filter ok (requirements t rs)) = 2"
    and w: "weightOf (task_id t) = 12"
    and others: "\<forall>u \<in> set tasks. task_id u \<noteq> task_id t \<longrightarrow> filter ok (requirements u rs) = []"
  shows "earnedTodoMarks st (taskResults tasks st rs) =
           Math_round (80 * (12 * (1 / 2)) / of_nat (sum_list (map snd todoWeights)))"
proof -
  let ?f = "\<lambda>u. of_nat (weightOf (task_id u)) * spec_fraction (requirements u rs)"
  from others have z: "\<forall>u \<in> set tasks. task_id u \<noteq> task_id t \<longrightarrow> ?f u = 0"
    by (simp add: spec_fraction_none)
  have "sum_list (map ?f tasks) = ?f t"
    using tasks_distinct t z by (rule sum_list_single_task)
  also have "\<dots> = 12 * (1 / 2)"
    using four two w by (simp add: spec_fraction_def)
  finally show ?thesis
    unfolding earnedTodoMarks_graded [OF st] by (simp add: TODO_BUCKET_MAX_def)
qed

text \<open>
  Claim C1, as the code has it. In a run of the script's tasks that is not missing, the
  result of each task carries the requirement list of that task on the extracted rules,
  its fraction is the number of satisfied requirements divided by the number of
  requirements (0 for an empty list, so nothing is divided by zero), its earned weight is
  weight times fraction, and the TODO bucket is
  \<open>round (80 * (sum over the tasks of weight * fraction) / T)\<close>, \<open>T\<close> being the sum of the
  configured weights; in a missing run every fraction and the bucket are 0. A task with 4
  requirements, 2 of them satisfied, and weight 12 has the fraction \<open>1 / 2\<close> and enters the
  sum with \<open>12 * (1 / 2)\<close>; when no other task has a satisfied requirement the bucket is
  \<open>round (80 * (12 * (1 / 2)) / T)\<close>. The sum is rounded once, so this is not in general
  the amount by which the task raises the bucket.
\<close>

theorem todo_bucket_weighted:
  "(run_status (grade tasks css exec) \<noteq> 2 \<longrightarrow>
      map tr_reqs (run_taskResults (grade tasks css exec)) = map (\<lambda>t. requirements t (rules css)) tasks
      \<and> map tr_fraction (run_taskResults (grade tasks css exec)) =
          map (\<lambda>t. spec_fraction (requirements t (rules css))) tasks
      \<and> map tr_earnedWeight (run_taskResults (grade tasks css exec)) =
          map (\<lambda>t. of_nat (weightOf (task_id t)) * spec_fraction (requirements t (rules css))) tasks
      \<and> run_earnedTodoMarks (grade tasks css exec) =
          Math_round (of_nat TODO_BUCKET_MAX *
                      (\<Sum>t\<leftarrow>tasks. of_nat (weightOf (task_id t)) * spec_fraction (requirements t (rules css)))
                      / of_nat (sum_list (map snd todoWeights))))
   \<and> (run_status (grade tasks css exec) = 2 \<longrightarrow>
        map tr_fraction (run_taskResults (grade tasks css exec)) = map (\<lambda>t. 0) tasks
        \<and> run_earnedTodoMarks (grade tasks css exec) = 0)
   \<and> map tr_id (run_taskResults (grade tasks css exec)) = map task_id tasks
   \<and> map tr_weight (run_taskResults (grade tasks css exec)) = map (\<lambda>t. weightOf (task_id t)) tasks
   \<and> TODO_BUCKET_MAX = 80
   \<and> spec_fraction [] = 0
   \<and> sc_fraction (scoreFromRequirements reqs) = spec_fraction reqs
   \<and> (run_status (grade tasks css exec) \<noteq> 2 \<and> t \<in> set tasks \<and>
      length (requirements t (rules css)) = 4 \<and>
      length (filter ok (requirements t (rules css))) = 2 \<and> weightOf (task_id t) = 12 \<longrightarrow>
        spec_fraction (requirements t (rules css)) = 1 / 2
        \<and> of_nat (weightOf (task_id t)) * spec_fraction (requirements t (rules css)) = 12 * (1 / 2)
        \<and> ((\<forall>u \<in> set tasks. task_id u \<noteq> task_id t \<longrightarrow> filter ok (requirements u (rules css)) = []) \<longrightarrow>
             run_earnedTodoMarks (grade tasks css exec) =
               Math_round (80 * (12 * (1 / 2)) / of_nat (sum_list (map snd todoWeights)))))"
proof -
  define st where "st = status css (wasSubmittedLate exec)"
  have r: "run_status (grade tasks css exec) = st"
    "run_taskResults (grade tasks css exec) = map (gradeTask st (rules css)) tasks"
    "run_earnedTodoMarks (grade tasks css exec) = earnedTodoMarks st (taskResults tasks st (rules css))"
    by (simp_all add: grade_def Let_def st_def taskResults_def)
  have a: "st \<noteq> 2 \<longrightarrow>
      map tr_reqs (map (gradeTask st (rules css)) tasks) = map (\<lambda>t. requirements t (rules css)) tasks
      \<and> map tr_fraction (map (gradeTask st (rules css)) tasks) =
          map (\<lambda>t. spec_fraction (requirements t (rules css))) tasks
      \<and> map tr_earnedWeight (map (gradeTask st (rules css)) tasks) =
          map (\<lambda>t. of_nat (weightOf (task_id t)) * spec_fraction (requirements t (rules css))) tasks
      \<and> earnedTodoMarks st (taskResults tasks st (rules css)) =
          Math_round (of_nat TODO_BUCKET_MAX *
                      (\<Sum>t\<leftarrow>tasks. of_nat (weightOf (task_id t)) * spec_fraction (requirements t (rules css)))
                      / of_nat (sum_list (map snd todoWeights)))"
    by (simp add: gradeTask_graded earnedTodoMarks_graded comp_def)
  have b: "st = 2 \<longrightarrow>
        map tr_fraction (map (gradeTask st (rules css)) tasks) = map (\<lambda>t. 0) tasks
        \<and> earnedTodoMarks st (taskResults tasks st (rules css)) = 0"
    by (simp add: gradeTask_missing earnedTodoMarks_def comp_def)
  have c: "map tr_id (map (gradeTask st (rules css)) tasks) = map task_id tasks
     \<and> map tr_weight (map (gradeTask st (rules css)) tasks) = map (\<lambda>t. weightOf (task_id t)) tasks"
    by (simp add: gradeTask_def Let_def comp_def)
  have d: "spec_fraction [] = 0 \<and> sc_fraction (scoreFromRequirements reqs) = spec_fraction reqs"
    by (simp add: score_spec) (simp add: spec_fraction_def)
  have e: "spec_fraction (requirements t (rules css)) = 1 / 2
        \<and> of_nat (weightOf (task_id t)) * spec_fraction (requirements t (rules css)) = 12 * (1 / 2)
        \<and> ((\<forall>u \<in> set tasks. task_id u \<noteq> task_id t \<longrightarrow> filter ok (requirements u (rules css)) = []) \<longrightarrow>
             earnedTodoMarks st (taskResults tasks st (rules css)) =
               Math_round (80 * (12 * (1 / 2)) / of_nat (sum_list (map snd todoWeights))))"
    if h: "st \<noteq> 2 \<and> t \<in> set tasks \<and> length (requirements t (rules css)) = 4 \<and>
      length (filter ok (requirements t (rules css))) = 2 \<and> weightOf (task_id t) = 12"
  proof -
    from h have f: "spec_fraction (requirements t (rules css)) = 1 / 2"
      by (simp add: spec_fraction_def)
    from h f have g: "of_nat (weightOf (task_id t)) * spec_fraction (requirements t (rules css)) = 12 * (1 / 2)"
      by simp
    from h sole_task_bucket [of st t "rules css"] f g show ?thesis by blast
  qed
  from a b c d e show ?thesis
    unfolding r by (simp add: TODO_BUCKET_MAX_def)
qed

theorem todo_bucket_weighted_witness:
  "run_status (grade tasks (Some ''.winner{color:blue} #specificity-test{color:red}'') (\<lambda>command. None)) = 0
   \<and> map (\<lambda>t. length (requirements t (rules (Some ''.winner{color:blue} #specificity-test{color:red}'')))) tasks
       = [6, 10, 3, 4, 3, 5, 6, 3, 2]
   \<and> map (\<lambda>t. length (filter ok (requirements t (rules (Some ''.winner{color:blue} #specificity-test{color:red}''))))) tasks
       = [0, 0, 0, 2, 0, 0, 0, 0, 0]
   \<and> map (\<lambda>t. weightOf (task_id t)) tasks = [12, 14, 12, 12, 12, 14, 12, 12, 12]
   \<and> map tr_fraction
         (run_taskResults (grade tasks (Some ''.winner{color:blue} #specificity-test{color:red}'') (\<lambda>command. None)))
       = [0, 0, 0, 1 / 2, 0, 0, 0, 0, 0]
   \<and> map tr_earnedWeight
         (run_taskResults (grade tasks (Some ''.winner{color:blue} #specificity-test{color:red}'') (\<lambda>command. None)))
       = [0, 0, 0, 6, 0, 0, 0, 0, 0]
   \<and> run_earnedTodoMarks (grade tasks (Some ''.winner{color:blue} #specificity-test{color:red}'') (\<lambda>command. None)) = 4"
proof -
  define css where "css = Some ''.winner{color:blue} #specificity-test{color:red}''"
  define exec :: "string \<Rightarrow> string option" where "exec = (\<lambda>command. None)"
  define t where "t = tasks ! 3"
  define frac :: "bool list \<Rightarrow> rat" where
    "frac = (\<lambda>bs. if bs = [] then 0 else of_nat (length (filter id bs)) / of_nat (length bs))"
  have q: "map (\<lambda>t. (task_id t, weightOf (task_id t), map ok (requirements t (rules css)))) tasks =
     [(''TODO 1'', 12, [False, False, False, False, False, False]),
      (''TODO 2'', 14, [False, False, False, False, False, False, False, False, False, False]),
      (''TODO 3'', 12, [False, False, False]),
      (''TODO 4'', 12, [False, True, True, False]),
      (''TODO 5'', 12, [False, False, False]),
      (''TODO 6'', 14, [False, False, False, False, False]),
      (''TODO 7'', 12, [False, False, False, False, False, False]),
      (''TODO 8'', 12, [False, False, False]),
      (''TODO 9'', 12, [False, False])]"
    unfolding css_def by code_simp
  have st: "status css (wasSubmittedLate exec) = 0"
    unfolding css_def exec_def by code_simp
  have rs: "run_status (grade tasks css exec) = 0"
    by (simp add: grade_def Let_def st)
  have lens: "map (\<lambda>t. length (requirements t (rules css))) tasks = [6, 10, 3, 4, 3, 5, 6, 3, 2]"
    using arg_cong [OF q, of "map (\<lambda>(i, w, bs). length bs)"] by (simp add: comp_def)
  have oks: "map (\<lambda>t. length (filter ok (requirements t (rules css)))) tasks = [0, 0, 0, 2, 0, 0, 0, 0, 0]"
    using arg_cong [OF q, of "map (\<lambda>(i, w, bs). length (filter id bs))"]
    by (simp add: comp_def filter_map)
  have ws: "map (\<lambda>t. weightOf (task_id t)) tasks = [12, 14, 12, 12, 12, 14, 12, 12, 12]"
    using arg_cong [OF q, of "map (\<lambda>(i, w, bs). w)"] by (simp add: comp_def)
  have fr: "map (\<lambda>t. spec_fraction (requirements t (rules css))) tasks = [0, 0, 0, 1 / 2, 0, 0, 0, 0, 0]"
    using arg_cong [OF q, of "map (\<lambda>(i, w, bs). frac bs)"]
    by (simp add: comp_def spec_fraction_oks frac_def del: map_is_Nil_conv)
  have ew: "map (\<lambda>t. of_nat (weightOf (task_id t)) * spec_fraction (requirements t (rules css))) tasks
              = [0, 0, 0, 6, 0, 0, 0, 0, 0]"
    using arg_cong [OF q, of "map (\<lambda>(i, w, bs). of_nat w * frac bs)"]
    by (simp add: comp_def spec_fraction_oks frac_def del: map_is_Nil_conv)
  have n: "length tasks = 9"
    by (simp add: tasks_def)
  have tin: "t \<in> set tasks"
    unfolding t_def using n by simp
  have tid: "task_id t = ''TODO 4''"
    by (simp add: t_def tasks_def)
  have four: "length (requirements t (rules css)) = 4"
    using arg_cong [OF lens, of "\<lambda>xs. xs ! 3"] n by (simp add: t_def)
  have two: "length (filter ok (requirements t (rules css))) = 2"
    using arg_cong [OF oks, of "\<lambda>xs. xs ! 3"] n by (simp add: t_def)
  have w: "weightOf (task_id t) = 12"
    using arg_cong [OF ws, of "\<lambda>xs. xs ! 3"] n by (simp add: t_def)
  have "list_all (\<lambda>u. task_id u = ''TODO 4'' \<or> filter id (map ok (requirements u (rules css))) = []) tasks"
    using arg_cong [OF q, of "list_all (\<lambda>(i, w, bs). i = ''TODO 4'' \<or> filter id bs = [])"]
    by (simp add: list.pred_map comp_def del: filter_id_conv filter_empty_conv)
  then have others: "\<forall>u \<in> set tasks. task_id u \<noteq> task_id t \<longrightarrow> filter ok (requirements u (rules css)) = []"
    unfolding tid filter_ok_map list_all_iff by blast
  have r: "Math_round (80 * (12 * (1 / 2)) / of_nat (sum_list (map snd todoWeights))) = 4"
    by (simp add: Math_round_eq_iff todoWeights_def)
  note th = todo_bucket_weighted [of css exec "[]" t]
  from th rs have a: "map tr_fraction (run_taskResults (grade tasks css exec)) =
      map (\<lambda>t. spec_fraction (requirements t (rules css))) tasks"
    by simp
  from th rs have b: "map tr_earnedWeight (run_taskResults (grade tasks css exec)) =
      map (\<lambda>t. of_nat (weightOf (task_id t)) * spec_fraction (requirements t (rules css))) tasks"
    by simp
  from th rs tin four two w others have c: "run_earnedTodoMarks (grade tasks css exec) =
      Math_round (80 * (12 * (1 / 2)) / of_nat (sum_list (map snd todoWeights)))"
    by simp
  from rs lens oks ws a b c fr ew r show ?thesis
    unfolding css_def exec_def by simp
qed

text \<open>
  Claim C1 as stated fails in its last part. The stylesheets \<^verbatim>\<open>*{margin:0}\<close> and
  \<^verbatim>\<open>*{margin:0} .winner{color:blue} #specificity-test{color:red}\<close> satisfy the same
  requirements of every task but TODO 4 (weight 12, 4 requirements), of which the first
  satisfies none and the second 2. The bucket values are 4 and 9: the task adds 5 to the
  bucket, and \<open>round (80 * (12 * 0.5) / T)\<close> is 4.
\<close>

theorem todo_contribution_counterexample:
  "map (\<lambda>t. map ok (requirements t (rules (Some ''*{margin:0}'')))) tasks =
     [[False, False, False, False, False, False],
      [False, False, False, False, False, False, False, False, False, False],
      [False, False, False],
      [False, False, False, False],
      [False, False, False],
      [False, False, False, False, False],
      [False, False, False, False, False, False],
      [False, False, False],
      [True, False]]
   \<and> map (\<lambda>t. map ok (requirements t
                (rules (Some ''*{margin:0} .winner{color:blue} #specificity-test{color:red}'')))) tasks =
     [[False, False, False, False, False, False],
      [False, False, False, False, False, False, False, False, False, False],
      [False, False, False],
      [False, True, True, False],
      [False, False, False],
      [False, False, False, False, False],
      [False, False, False, False, False, False],
      [False, False, False],
      [True, False]]
   \<and> weightOf (task_id (tasks ! 3)) = 12
   \<and> run_earnedTodoMarks (grade tasks (Some ''*{margin:0}'') (\<lambda>command. None)) = 4
   \<and> run_earnedTodoMarks
        (grade tasks (Some ''*{margin:0} .winner{color:blue} #specificity-test{color:red}'')
           (\<lambda>command. None)) = 9
   \<and> run_earnedTodoMarks
        (grade tasks (Some ''*{margin:0} .winner{color:blue} #specificity-test{color:red}'')
           (\<lambda>command. None))
       - run_earnedTodoMarks (grade tasks (Some ''*{margin:0}'') (\<lambda>command. None))
     \<noteq> Math_round (80 * (12 * (1 / 2)) / of_nat (sum_list (map snd todoWeights)))"
proof -
  define A where "A = Some ''*{margin:0}''"
  define B where "B = Some ''*{margin:0} .winner{color:blue} #specificity-test{color:red}''"
  define exec :: "string \<Rightarrow> string option" where "exec = (\<lambda>command. None)"
  have qa: "map (\<lambda>t. (weightOf (task_id t), map ok (requirements t (rules A)))) tasks =
     [(12, [False, False, False, False, False, False]),
      (14, [False, False, False, False, False, False, False, False, False, False]),
      (12, [False, False, False]),
      (12, [False, False, False, False]),
      (12, [False, False, False]),
      (14, [False, False, False, False, False]),
      (12, [False, False, False, False, False, False]),
      (12, [False, False, False]),
      (12, [True, False])]"
    unfolding A_def by code_simp
  have qb: "map (\<lambda>t. (weightOf (task_id t), map ok (requirements t (rules B)))) tasks =
     [(12, [False, False, False, False, False, False]),
      (14, [False, False, False, False, False, False, False, False, False, False]),
      (12, [False, False, False]),
      (12, [False, True, True, False]),
      (12, [False, False, False]),
      (14, [False, False, False, False, False]),
      (12, [False, False, False, False, False, False]),
      (12, [False, False, False]),
      (12, [True, False])]"
    unfolding B_def by code_simp
  have sa: "status A (wasSubmittedLate exec) = 0"
    unfolding A_def exec_def by code_simp
  have sb: "status B (wasSubmittedLate exec) = 0"
    unfolding B_def exec_def by code_simp
  have ea: "earnedWeightTotal (taskResults tasks 0 (rules A)) = 6"
    unfolding earnedWeightTotal_oks qa by simp
  have eb: "earnedWeightTotal (taskResults tasks 0 (rules B)) = 12"
    unfolding earnedWeightTotal_oks qb by simp
  have ta: "run_earnedTodoMarks (grade tasks A exec) = 4"
    unfolding grade_def Let_def sa
    by (simp add: earnedTodoMarks_def ea Math_round_eq_iff totalWeight_value TODO_BUCKET_MAX_def)
  have tb: "run_earnedTodoMarks (grade tasks B exec) = 9"
    unfolding grade_def Let_def sb
    by (simp add: earnedTodoMarks_def eb Math_round_eq_iff totalWeight_value TODO_BUCKET_MAX_def)
  have ma: "map (\<lambda>t. map ok (requirements t (rules A))) tasks =
     [[False, False, False, False, False, False],
      [False, False, False, False, False, False, False, False, False, False],
      [False, False, False],
      [False, False, False, False],
      [False, False, False],
      [False, False, False, False, False],
      [False, False, False, False, False, False],
      [False, False, False],
      [True, False]]"
    using arg_cong [OF qa, of "map snd"] by (simp add: comp_def)
  have mb: "map (\<lambda>t. map ok (requirements t (rules B))) tasks =
     [[False, False, False, False, False, False],
      [False, False, False, False, False, False, False, False, False, False],
      [False, False, False],
      [False, True, True, False],
      [False, False, False],
      [False, False, False, False, False],
      [False, False, False, False, False, False],
      [False, False, False],
      [True, False]]"
    using arg_cong [OF qb, of "map snd"] by (simp add: comp_def)
  have w: "weightOf (task_id (tasks ! 3)) = 12"
    by (simp add: tasks_def weightOf_def todoWeights_def)
  have r: "Math_round (80 * (12 * (1 / 2)) / of_nat (sum_list (map snd todoWeights))) = 4"
    by (simp add: Math_round_eq_iff todoWeights_def)
  from ma mb w ta tb r show ?thesis
    unfolding A_def B_def exec_def by simp
qed

section \<open>Distance of the bucket value from a tie\<close>

text \<open>
  The model computes with exact rationals where the script computes with doubles. For the
  script's own tasks the exact quotient that \<^verbatim>\<open>Math.round\<close> receives is a multiple of
  \<open>1 / 7\<close>, so it stays at least \<open>1 / 14\<close> away from every tie \<open>m + 1 / 2\<close>; the
  rounding error of the few double operations is smaller by many orders of magnitude.
\<close>

lemma requirement_counts:
  "map (\<lambda>t. length (requirements t rs)) tasks = [6, 10, 3, 4, 3, 5, 6, 3, 2]"
  by (simp add: tasks_def todo1_def todo2_def todo3_def todo4_def todo5_def todo6_def todo7_def
      todo8_def todo9_def Let_def)

lemma seventh_away_from_tie:
  fixes N m :: int
  shows "1 / 14 \<le> \<bar>(of_int N :: rat) / 7 - (of_int m + 1 / 2)\<bar>"
proof -
  define A :: rat where "A = 2 * of_int N - 14 * of_int m - 7"
  have "2 * N - 14 * m - 7 \<noteq> 0" by presburger
  then have "1 \<le> \<bar>2 * N - 14 * m - 7\<bar>" by simp
  then have "(1 :: rat) \<le> of_int \<bar>2 * N - 14 * m - 7\<bar>"
    by (metis of_int_1 of_int_le_iff)
  then have ge: "1 \<le> \<bar>A\<bar>"
    by (simp add: A_def)
  have e: "(of_int N :: rat) / 7 - (of_int m + 1 / 2) = A / 14"
    by (simp add: A_def field_simps)
  have "1 / 14 \<le> \<bar>A\<bar> / 14"
    using ge by (rule divide_right_mono) simp
  also have "\<bar>A\<bar> / 14 = \<bar>A / 14\<bar>"
    by simp
  finally show ?thesis
    by (simp only: e)
qed

lemma bucket_value_sevenths:
  assumes "st \<noteq> 2"
  shows "\<exists>N :: int. of_nat TODO_BUCKET_MAX * earnedWeightTotal (taskResults tasks st rs) / of_nat totalWeight
           = of_int N / 7"
proof -
  define k where "k = (\<lambda>f :: rule list \<Rightarrow> req list. int (length (filter ok (f rs))))"
  have len: "length (todo1 rs) = 6" "length (todo2 rs) = 10" "length (todo3 rs) = 3"
      "length (todo4 rs) = 4" "length (todo5 rs) = 3" "length (todo6 rs) = 5"
      "length (todo7 rs) = 6" "length (todo8 rs) = 3" "length (todo9 rs) = 2"
    using requirement_counts [of rs] by (simp_all add: tasks_def)
  have "of_nat TODO_BUCKET_MAX * earnedWeightTotal (taskResults tasks st rs) / of_nat totalWeight =
          of_int (10 * k todo1 + 7 * k todo2 + 20 * k todo3 + 15 * k todo4 + 20 * k todo5 +
                  14 * k todo6 + 10 * k todo7 + 20 * k todo8 + 30 * k todo9) / 7"
    unfolding earnedWeightTotal_sum
    using assms
    by (simp add: tasks_def gradeTask_def scoreFromRequirements_def Let_def len weightOf_def
        todoWeights_def TODO_BUCKET_MAX_def totalWeight_value k_def field_simps)
  then show ?thesis by blast
qed

lemma bucket_value_margin:
  assumes "st \<noteq> 2"
  shows "1 / 14 \<le> \<bar>of_nat TODO_BUCKET_MAX * earnedWeightTotal (taskResults tasks st rs) / of_nat totalWeight
                     - (of_int m + 1 / 2)\<bar>"
proof -
  from bucket_value_sevenths [OF assms, of rs] obtain N :: int where
    "of_nat TODO_BUCKET_MAX * earnedWeightTotal (taskResults tasks st rs) / of_nat totalWeight = of_int N / 7"
    by blast
  then show ?thesis
    by (simp only: seventh_away_from_tie)
qed

section \<open>Rules that satisfy a requirement\<close>

lemma findMatchingRules_set:
  "set (findMatchingRules rs m) = {r \<in> set rs. spec_selectorMatches m (selector r)}"
  by (cases m) (auto simp: Let_def)

text \<open>
  Claim C5. \<open>ruleSatisfies\<close> holds exactly when some rule that matches the selector query
  meets the three sub-conditions together: all of \<open>allProps\<close> are properties of its
  declarations, one of \<open>anyProps\<close> is (when \<open>anyProps\<close> is given), and every
  \<open>mustInclude\<close> text, lower-cased, occurs in its declarations. When no rule matches the
  query, \<open>ruleSatisfies\<close> is false whatever the requirement.
\<close>

theorem ruleSatisfies_iff:
  "(ruleSatisfies rs m opts \<longleftrightarrow>
      (\<exists>r \<in> set rs. spec_selectorMatches m (selector r)
         \<and> (\<forall>p \<in> set (allProps opts). propRegExpTest p (decls r))
         \<and> (anyProps opts = [] \<or> (\<exists>p \<in> set (anyProps opts). propRegExpTest p (decls r)))
         \<and> (\<forall>needle \<in> set (mustInclude opts). includes_str (decls r) (toLowerCase needle))))
   \<and> ((\<forall>r \<in> set rs. \<not> spec_selectorMatches m (selector r)) \<longrightarrow> \<not> ruleSatisfies rs m opts)"
proof -
  have a: "ruleSatisfies rs m opts \<longleftrightarrow>
      (\<exists>r \<in> set rs. spec_selectorMatches m (selector r)
         \<and> (\<forall>p \<in> set (allProps opts). propRegExpTest p (decls r))
         \<and> (anyProps opts = [] \<or> (\<exists>p \<in> set (anyProps opts). propRegExpTest p (decls r)))
         \<and> (\<forall>needle \<in> set (mustInclude opts). includes_str (decls r) (toLowerCase needle)))"
  proof (cases "findMatchingRules rs m = []")
    case True
    then have "{r \<in> set rs. spec_selectorMatches m (selector r)} = {}"
      using findMatchingRules_set [of rs m] by simp
    with True show ?thesis
      by (auto simp: ruleSatisfies_def)
  next
    case False
    then show ?thesis
      unfolding ruleSatisfies_def Let_def list_ex_iff findMatchingRules_set
        declsHasAllProperties_def declsHasAnyProperty_def list_all_iff
      by auto
  qed
  then show ?thesis by blast
qed

theorem ruleSatisfies_iff_witness:
  "spec_selectorMatches (MString '' P '') (selector \<lparr>selector = ''p'', decls = ''color:red''\<rparr>)
   \<and> ruleSatisfies [\<lparr>selector = ''p'', decls = ''color:red''\<rparr>] (MString '' P '') (anyOf [''color''])
   \<and> \<not> spec_selectorMatches (MString ''q'') (selector \<lparr>selector = ''p'', decls = ''color:red''\<rparr>)
   \<and> \<not> ruleSatisfies [\<lparr>selector = ''p'', decls = ''color:red''\<rparr>] (MString ''q'') (anyOf [''color''])"
proof -
  have s: "spec_selectorMatches (MString '' P '') (selector \<lparr>selector = ''p'', decls = ''color:red''\<rparr>)"
    by code_simp
  have p: "propRegExpTest ''color'' ''color:red''"
    by code_simp
  have n: "\<not> spec_selectorMatches (MString ''q'') (selector \<lparr>selector = ''p'', decls = ''color:red''\<rparr>)"
    by code_simp
  show ?thesis
    using s p n
      ruleSatisfies_iff [of "[\<lparr>selector = ''p'', decls = ''color:red''\<rparr>]" "MString '' P ''" "anyOf [''color'']"]
      ruleSatisfies_iff [of "[\<lparr>selector = ''p'', decls = ''color:red''\<rparr>]" "MString ''q''" "anyOf [''color'']"]
    by (simp add: anyOf_def)
qed

section \<open>Normalisation\<close>

lemma isSpace_code: "isSpace c \<longleftrightarrow> (of_char c :: nat) \<in> {9, 10, 11, 12, 13, 32, 160}"
proof -
  have e: "(c = d) = ((of_char c :: nat) = of_char d)" for d
    by simp
  show ?thesis
    unfolding isSpace_def by (simp add: e)
qed

lemma isSpace_toLowerChar: "isSpace (toLowerChar c) = isSpace c"
  by (auto simp: isSpace_code toLowerChar_def Let_def)

lemma dropWhile_toLowerCase: "dropWhile isSpace (toLowerCase s) = toLowerCase (dropWhile isSpace s)"
  by (simp add: toLowerCase_def dropWhile_map comp_def isSpace_toLowerChar)

lemma trim_toLowerCase: "trim (toLowerCase s) = toLowerCase (trim s)"
proof -
  have "rev (toLowerCase s) = toLowerCase (rev s)" for s
    by (simp add: toLowerCase_def rev_map)
  then show ?thesis
    by (simp add: trim_def dropWhile_toLowerCase)
qed

lemma dropWhile_collapseWs: "dropWhile isSpace (collapseWs s) = collapseWs (dropWhile isSpace s)"
proof (cases s)
  case Nil
  then show ?thesis by simp
next
  case (Cons c cs)
  show ?thesis
  proof (cases "isSpace c")
    case False
    with Cons show ?thesis by simp
  next
    case True
    have sp: "isSpace CHR '' ''" by (simp add: isSpace_def)
    have "dropWhile isSpace (collapseWs (dropWhile isSpace cs)) = collapseWs (dropWhile isSpace cs)"
    proof (cases "dropWhile isSpace cs")
      case Nil
      show ?thesis unfolding Nil by simp
    next
      case (Cons d ds)
      then have "\<not> isSpace d"
        using hd_dropWhile [of isSpace cs] by auto
      then show ?thesis unfolding Cons by simp
    qed
    with Cons True sp show ?thesis by simp
  qed
qed

lemma collapseWs_all_space: "(\<forall>c \<in> set (collapseWs s). isSpace c) \<longleftrightarrow> (\<forall>c \<in> set s. isSpace c)"
proof (induction s rule: collapseWs.induct)
  case 1
  then show ?case by simp
next
  case (2 c cs)
  have sp: "isSpace CHR '' ''" by (simp add: isSpace_def)
  show ?case
  proof (cases "isSpace c")
    case True
    have "(\<forall>x \<in> set (dropWhile isSpace cs). isSpace x) \<longleftrightarrow> (\<forall>x \<in> set cs. isSpace x)"
      by (metis dropWhile_eq_Nil_conv dropWhile_idem empty_iff list.set(1))
    with True "2.IH"(1) sp show ?thesis by simp
  next
    case False
    then show ?thesis by simp
  qed
qed

lemma trimEnd_Cons:
  "rev (dropWhile isSpace (rev (x # xs))) =
     (if \<forall>y \<in> set xs. isSpace y then (if isSpace x then [] else [x])
      else x # rev (dropWhile isSpace (rev xs)))"
  by (simp add: dropWhile_append)

lemma trimEnd_dropWhile:
  "rev (dropWhile isSpace (rev (dropWhile isSpace s))) = dropWhile isSpace (rev (dropWhile isSpace (rev s)))"
proof (induction s)
  case Nil
  then show ?case by simp
next
  case (Cons x xs)
  show ?case
  proof (cases "isSpace x")
    case True
    show ?thesis
    proof (cases "\<forall>y \<in> set xs. isSpace y")
      case True
      then have d: "dropWhile isSpace xs = []" by simp
      from True \<open>isSpace x\<close> show ?thesis by (simp add: dropWhile_append d)
    next
      case False
      with \<open>isSpace x\<close> Cons show ?thesis by (auto simp: dropWhile_append)
    qed
  next
    case False
    then show ?thesis by (simp add: dropWhile_append)
  qed
qed

lemma trimEnd_collapseWs:
  "rev (dropWhile isSpace (rev (collapseWs s))) = collapseWs (rev (dropWhile isSpace (rev s)))"
proof (induction s rule: collapseWs.induct)
  case 1
  then show ?case by simp
next
  case (2 c cs)
  have sp: "isSpace CHR '' ''" by (simp add: isSpace_def)
  show ?case
  proof (cases "isSpace c")
    case True
    note c = this
    show ?thesis
    proof (cases "\<forall>y \<in> set cs. isSpace y")
      case True
      then have d: "dropWhile isSpace cs = []" by simp
      from True c sp show ?thesis by (simp add: dropWhile_append d)
    next
      case False
      then have ne: "\<not> (\<forall>y \<in> set (dropWhile isSpace cs). isSpace y)"
        by (metis dropWhile_eq_Nil_conv dropWhile_idem empty_iff list.set(1))
      then have ne': "\<not> (\<forall>y \<in> set (collapseWs (dropWhile isSpace cs)). isSpace y)"
        by (simp add: collapseWs_all_space)
      have "rev (dropWhile isSpace (rev (collapseWs (c # cs)))) =
              CHR '' '' # rev (dropWhile isSpace (rev (collapseWs (dropWhile isSpace cs))))"
        using c ne' by (simp add: trimEnd_Cons del: rev.simps)
      also have "\<dots> = CHR '' '' # collapseWs (rev (dropWhile isSpace (rev (dropWhile isSpace cs))))"
        using "2.IH"(1) c by simp
      also have "\<dots> = CHR '' '' # collapseWs (dropWhile isSpace (rev (dropWhile isSpace (rev cs))))"
        by (simp only: trimEnd_dropWhile)
      also have "\<dots> = collapseWs (c # rev (dropWhile isSpace (rev cs)))"
        using c by simp
      also have "c # rev (dropWhile isSpace (rev cs)) = rev (dropWhile isSpace (rev (c # cs)))"
        using False by (simp add: trimEnd_Cons del: rev.simps)
      finally show ?thesis .
    qed
  next
    case False
    note c = this
    show ?thesis
    proof (cases "\<forall>y \<in> set cs. isSpace y")
      case True
      then have "\<forall>y \<in> set (collapseWs cs). isSpace y"
        by (simp add: collapseWs_all_space)
      with True c show ?thesis
        by (simp add: trimEnd_Cons del: rev.simps)
    next
      case False
      then have "\<not> (\<forall>y \<in> set (collapseWs cs). isSpace y)"
        by (simp add: collapseWs_all_space)
      with False c "2.IH"(2) show ?thesis
        by (auto simp: trimEnd_Cons simp del: rev.simps)
    qed
  qed
qed

lemma trim_collapseWs: "trim (collapseWs s) = collapseWs (trim s)"
  unfolding trim_def by (simp only: dropWhile_collapseWs trimEnd_collapseWs)

lemma normalize_order: "trim (collapseWs (toLowerCase s)) = collapseWs (toLowerCase (trim s))"
  by (simp only: trim_collapseWs trim_toLowerCase)

section \<open>The rule extractor\<close>

lemma matchAt_span:
  assumes "sel \<noteq> []" and "\<forall>c \<in> set sel. \<not> isBrace c" and "CHR ''}'' \<notin> set body"
  shows "matchAt (sel @ CHR ''{'' # body @ CHR ''}'' # rest) =
           Some (sel, body, length sel + 1 + length body + 1)"
proof -
  have t: "takeWhile (\<lambda>c. \<not> isBrace c) (sel @ CHR ''{'' # body @ CHR ''}'' # rest) = sel"
    using assms(2) by (simp add: isBrace_def)
  have d: "dropWhile (\<lambda>c. \<not> isBrace c) (sel @ CHR ''{'' # body @ CHR ''}'' # rest) =
             CHR ''{'' # body @ CHR ''}'' # rest"
    using assms(2) by (simp add: isBrace_def)
  have tb: "takeWhile (\<lambda>c. c \<noteq> CHR ''}'') (body @ CHR ''}'' # rest) = body"
    using assms(3) by (subst takeWhile_append2) auto
  have db: "dropWhile (\<lambda>c. c \<noteq> CHR ''}'') (body @ CHR ''}'' # rest) = CHR ''}'' # rest"
    using assms(3) by (subst dropWhile_append2) auto
  show ?thesis
    unfolding matchAt_def t d Let_def using assms(1) by (simp add: tb db)
qed

lemma matchAt_brace: "isBrace c \<Longrightarrow> matchAt (c # s) = None"
  by (simp add: matchAt_def)

lemma matchAt_closed:
  assumes "\<forall>c \<in> set junk. \<not> isBrace c"
  shows "matchAt (junk @ CHR ''}'' # rest) = None"
proof -
  have d: "dropWhile (\<lambda>c. \<not> isBrace c) (junk @ CHR ''}'' # rest) = CHR ''}'' # rest"
    using assms by (simp add: isBrace_def)
  show ?thesis
    unfolding matchAt_def d Let_def by simp
qed

lemma matchAt_noclose:
  assumes "CHR ''}'' \<notin> set s"
  shows "matchAt s = None"
proof (cases "dropWhile (\<lambda>c. \<not> isBrace c) s")
  case Nil
  show ?thesis unfolding matchAt_def Let_def Nil by simp
next
  case (Cons c r2)
  have "set r2 \<subseteq> set s"
    using set_dropWhileD [of _ "\<lambda>c. \<not> isBrace c" s] Cons by auto
  with assms have e: "dropWhile (\<lambda>c. c \<noteq> CHR ''}'') r2 = []"
    by auto
  show ?thesis unfolding matchAt_def Let_def Cons by (simp add: e)
qed

lemma matchAt_pos: "matchAt s = Some (a, b, n) \<Longrightarrow> 0 < n"
  by (auto simp: matchAt_def Let_def split: if_splits list.splits)

lemma reExec_pos: "reExec s = Some (a, b, n) \<Longrightarrow> 0 < n"
proof (induction s arbitrary: n)
  case Nil
  then show ?case by simp
next
  case (Cons c cs)
  then show ?case
    by (cases "matchAt (c # cs)") (auto dest: matchAt_pos)
qed

lemma parseLoop_unfold:
  "parseLoop s =
     (case reExec s of
        None \<Rightarrow> []
      | Some (selectorRaw, declRaw, n) \<Rightarrow> pushRules selectorRaw declRaw @ parseLoop (drop n s))"
proof (cases s)
  case Nil
  then show ?thesis by simp
next
  case (Cons c cs)
  show ?thesis
  proof (cases "reExec (c # cs)")
    case None
    with Cons show ?thesis by simp
  next
    case (Some m)
    obtain a b n where m: "m = (a, b, n)" by (cases m)
    from Some [unfolded m] have "0 < n" by (rule reExec_pos)
    then have "drop (n - 1) cs = drop n (c # cs)" by (cases n) simp_all
    with Cons Some m show ?thesis by simp
  qed
qed

lemma reExec_brace:
  "isBrace c \<Longrightarrow> reExec (c # s) = map_option (\<lambda>(a, b, n). (a, b, Suc n)) (reExec s)"
  by (simp add: matchAt_brace)

lemma reExec_closed:
  assumes "\<forall>c \<in> set junk. \<not> isBrace c"
  shows "reExec (junk @ CHR ''}'' # rest) =
           map_option (\<lambda>(a, b, n). (a, b, n + (length junk + 1))) (reExec rest)"
  using assms
proof (induction junk)
  case Nil
  then show ?case by (simp add: matchAt_brace isBrace_def)
next
  case (Cons x junk)
  then have "matchAt ((x # junk) @ CHR ''}'' # rest) = None"
    by (intro matchAt_closed) simp
  with Cons show ?case
    by (simp add: option.map_comp comp_def case_prod_unfold)
qed

lemma reExec_noclose: "CHR ''}'' \<notin> set s \<Longrightarrow> reExec s = None"
  by (induction s) (simp_all add: matchAt_noclose)

lemma parseLoop_span:
  assumes "sel \<noteq> []" and "\<forall>c \<in> set sel. \<not> isBrace c" and "CHR ''}'' \<notin> set body"
  shows "parseLoop (sel @ CHR ''{'' # body @ CHR ''}'' # rest) = pushRules sel body @ parseLoop rest"
proof -
  obtain c cs where s: "sel = c # cs" using assms(1) by (cases sel) auto
  have "reExec (sel @ CHR ''{'' # body @ CHR ''}'' # rest) =
          Some (sel, body, length sel + 1 + length body + 1)"
    using matchAt_span [OF assms, of rest] by (simp add: s)
  moreover have "drop (length sel + 1 + length body + 1) (sel @ CHR ''{'' # body @ CHR ''}'' # rest) = rest"
    by simp
  ultimately show ?thesis
    by (subst parseLoop_unfold) simp
qed

lemma parseLoop_skip:
  assumes "reExec (pre @ s) = map_option (\<lambda>(a, b, n). (a, b, n + length pre)) (reExec s)"
  shows "parseLoop (pre @ s) = parseLoop s"
proof (cases "reExec s")
  case None
  with assms show ?thesis
    by (subst parseLoop_unfold, subst (2) parseLoop_unfold) simp
next
  case (Some m)
  obtain a b n where m: "m = (a, b, n)" by (cases m)
  from assms Some m have "reExec (pre @ s) = Some (a, b, n + length pre)"
    by simp
  then have "parseLoop (pre @ s) = pushRules a b @ parseLoop (drop (n + length pre) (pre @ s))"
    by (subst parseLoop_unfold) simp
  also have "drop (n + length pre) (pre @ s) = drop n s"
    by simp
  also have "pushRules a b @ parseLoop (drop n s) = parseLoop s"
    using Some m by (subst (2) parseLoop_unfold) simp
  finally show ?thesis .
qed

lemma parseLoop_brace:
  assumes "isBrace c"
  shows "parseLoop (c # rest) = parseLoop rest"
  using parseLoop_skip [of "[c]" rest] reExec_brace [OF assms, of rest] by simp

lemma parseLoop_closed:
  assumes "\<forall>c \<in> set junk. \<not> isBrace c"
  shows "parseLoop (junk @ CHR ''}'' # rest) = parseLoop rest"
  using parseLoop_skip [of "junk @ [CHR ''}'']" rest] reExec_closed [OF assms, of rest] by simp

lemma parseLoop_noclose: "CHR ''}'' \<notin> set s \<Longrightarrow> parseLoop s = []"
  by (subst parseLoop_unfold) (simp add: reExec_noclose)

lemma pushRules_selector: "r \<in> set (pushRules selectorRaw declRaw) \<Longrightarrow> selector r \<noteq> []"
  by (auto simp: pushRules_def Let_def)

lemma parseLoop_selector: "r \<in> set (parseLoop s) \<Longrightarrow> selector r \<noteq> []"
proof (induction s rule: parseLoop.induct)
  case 1
  then show ?case by simp
next
  case (2 c cs)
  show ?case
  proof (cases "reExec (c # cs)")
    case None
    with "2.prems" show ?thesis by simp
  next
    case (Some m)
    obtain a b n where m: "m = (a, b, n)" by (cases m)
    from "2.prems" Some m
    have "r \<in> set (pushRules a b) \<or> r \<in> set (parseLoop (drop (n - 1) cs))"
      by simp
    then show ?thesis
    proof
      assume "r \<in> set (pushRules a b)"
      then show ?thesis by (rule pushRules_selector)
    next
      assume "r \<in> set (parseLoop (drop (n - 1) cs))"
      with "2.IH" Some m show ?thesis by simp
    qed
  qed
qed




declare parseLoop.simps [simp del]

lemma normalizeSelector_spec: "normalizeSelector s = spec_normalize s"
  by (simp only: normalizeSelector_def spec_normalize_def normalize_order)

lemma normalizeDecls_spec: "normalizeDecls s = spec_normalize s"
  by (simp only: normalizeDecls_def spec_normalize_def normalize_order)

lemma no_close_in_spaces:
  assumes "list_all isSpace s"
  shows "CHR ''}'' \<notin> set s"
proof
  assume "CHR ''}'' \<in> set s"
  with assms have "isSpace CHR ''}''" by (simp add: list_all_iff)
  then show False by (simp add: isSpace_def)
qed

text \<open>
  Claim C4. On the text left after stripping comments the extractor works span by span:
  a non-empty brace-free text \<open>sel\<close>, an opening brace, a text \<open>body\<close> without closing
  brace and the closing brace give one rule for each non-empty normalised piece of
  \<open>sel\<close> between commas, all with the normalised \<open>body\<close>, followed by the rules of the rest.
  A brace in front, and a brace-free text followed by a closing brace, are skipped; a text
  without closing brace gives no rule. Normalising is trimming, lower-casing and
  collapsing whitespace. An empty or comments-only stylesheet gives no rule.
\<close>

theorem parseCssRules_spans:
  "parseCssRules css = parseLoop (stripCssComments css)
   \<and> (sel \<noteq> [] \<and> (\<forall>c \<in> set sel. \<not> isBrace c) \<and> CHR ''}'' \<notin> set body \<longrightarrow>
        parseLoop (sel @ CHR ''{'' # body @ CHR ''}'' # rest) =
          map (\<lambda>piece. \<lparr>selector = piece, decls = spec_normalize body\<rparr>)
              (filter (\<lambda>piece. piece \<noteq> []) (map spec_normalize (split CHR '','' sel)))
          @ parseLoop rest)
   \<and> (isBrace c \<longrightarrow> parseLoop (c # rest) = parseLoop rest)
   \<and> ((\<forall>c \<in> set junk. \<not> isBrace c) \<longrightarrow> parseLoop (junk @ CHR ''}'' # rest) = parseLoop rest)
   \<and> (CHR ''}'' \<notin> set s \<longrightarrow> parseLoop s = [])
   \<and> (spec_emptyOrCommentsOnly css \<longrightarrow> parseCssRules css = [])"
proof -
  have a: "parseLoop (sel @ CHR ''{'' # body @ CHR ''}'' # rest) =
          map (\<lambda>piece. \<lparr>selector = piece, decls = spec_normalize body\<rparr>)
              (filter (\<lambda>piece. piece \<noteq> []) (map spec_normalize (split CHR '','' sel)))
          @ parseLoop rest"
    if "sel \<noteq> [] \<and> (\<forall>c \<in> set sel. \<not> isBrace c) \<and> CHR ''}'' \<notin> set body"
  proof -
    have "pushRules sel body =
          map (\<lambda>piece. \<lparr>selector = piece, decls = spec_normalize body\<rparr>)
              (filter (\<lambda>piece. piece \<noteq> []) (map spec_normalize (split CHR '','' sel)))"
      unfolding pushRules_def Let_def normalizeDecls_spec
      by (simp add: normalizeSelector_spec [abs_def])
    with that show ?thesis by (simp add: parseLoop_span)
  qed
  have e: "parseCssRules css = []" if "spec_emptyOrCommentsOnly css"
  proof -
    from that have "list_all isSpace (stripCssComments css)"
      by (simp only: spec_emptyOrCommentsOnly_def)
    then have "CHR ''}'' \<notin> set (stripCssComments css)"
      by (rule no_close_in_spaces)
    then show ?thesis
      unfolding parseCssRules_def by (rule parseLoop_noclose)
  qed
  have p: "parseCssRules css = parseLoop (stripCssComments css)"
    by (simp only: parseCssRules_def)
  have b: "isBrace c \<longrightarrow> parseLoop (c # rest) = parseLoop rest"
    using parseLoop_brace by blast
  have k: "(\<forall>c \<in> set junk. \<not> isBrace c) \<longrightarrow> parseLoop (junk @ CHR ''}'' # rest) = parseLoop rest"
    using parseLoop_closed by blast
  have n: "CHR ''}'' \<notin> set s \<longrightarrow> parseLoop s = []"
    using parseLoop_noclose by blast
  from p a b k n e show ?thesis by blast
qed

theorem parseCssRules_spans_witness:
  "''a, B '' \<noteq> [] \<and> list_all (\<lambda>c. \<not> isBrace c) ''a, B '' \<and> CHR ''}'' \<notin> set '' X  : y ''
   \<and> parseLoop ''a, B { X  : y }'' =
       [\<lparr>selector = ''a'', decls = ''x : y''\<rparr>, \<lparr>selector = ''b'', decls = ''x : y''\<rparr>]
   \<and> isBrace CHR ''{'' \<and> parseLoop ''{}zz}a{b}'' = [\<lparr>selector = ''a'', decls = ''b''\<rparr>]
   \<and> parseLoop ''a{b'' = []
   \<and> spec_emptyOrCommentsOnly ''/* a{b} */ '' \<and> parseCssRules ''/* a{b} */ '' = []"
proof -
  have h: "''a, B '' \<noteq> [] \<and> (\<forall>c \<in> set ''a, B ''. \<not> isBrace c) \<and> CHR ''}'' \<notin> set '' X  : y ''"
    by (simp add: isBrace_def)
  have r: "map (\<lambda>piece. \<lparr>selector = piece, decls = spec_normalize '' X  : y ''\<rparr>)
              (filter (\<lambda>piece. piece \<noteq> []) (map spec_normalize (split CHR '','' ''a, B '')))
           @ parseLoop [] =
       [\<lparr>selector = ''a'', decls = ''x : y''\<rparr>, \<lparr>selector = ''b'', decls = ''x : y''\<rparr>]"
    by code_simp
  have 1: "parseLoop ''a, B { X  : y }'' =
       [\<lparr>selector = ''a'', decls = ''x : y''\<rparr>, \<lparr>selector = ''b'', decls = ''x : y''\<rparr>]"
    using parseCssRules_spans [of css "''a, B ''" "'' X  : y ''" "[]" c junk s] h r by simp
  have b: "isBrace CHR ''{''"
    by (simp add: isBrace_def)
  have 2: "parseLoop ''{}zz}a{b}'' = parseLoop ''}zz}a{b}''"
    using parseCssRules_spans [of css sel body "''}zz}a{b}''" "CHR ''{''" junk s] b by simp
  have 3: "parseLoop ''}zz}a{b}'' = parseLoop ''zz}a{b}''"
    using parseCssRules_spans [of css sel body "''zz}a{b}''" c "[]" s] by simp
  have 4: "parseLoop ''zz}a{b}'' = parseLoop ''a{b}''"
    using parseCssRules_spans [of css sel body "''a{b}''" c "''zz''" s] by (simp add: isBrace_def)
  have r5: "map (\<lambda>piece. \<lparr>selector = piece, decls = spec_normalize ''b''\<rparr>)
              (filter (\<lambda>piece. piece \<noteq> []) (map spec_normalize (split CHR '','' ''a'')))
           @ parseLoop [] = [\<lparr>selector = ''a'', decls = ''b''\<rparr>]"
    by code_simp
  have 5: "parseLoop ''a{b}'' = [\<lparr>selector = ''a'', decls = ''b''\<rparr>]"
    using parseCssRules_spans [of css "''a''" "''b''" "[]" c junk s] r5 by (simp add: isBrace_def)
  have 6: "parseLoop ''a{b'' = []"
    using parseCssRules_spans [of css sel body rest c junk "''a{b''"] by simp
  have e: "spec_emptyOrCommentsOnly ''/* a{b} */ ''"
    by code_simp
  have 7: "parseCssRules ''/* a{b} */ '' = []"
    using parseCssRules_spans [of "''/* a{b} */ ''" sel body rest c junk s] e by blast
  from h 1 b 2 3 4 5 6 e 7 show ?thesis
    by (simp add: list_all_iff)
qed

text \<open>
  Claim C9. Every rule the extractor produces has a non-empty selector; the declarations
  of a rule may be empty, as for \<^verbatim>\<open>a{}\<close>.
\<close>

theorem parseCssRules_selector_nonempty:
  "(\<forall>r \<in> set (parseCssRules css). selector r \<noteq> [])
   \<and> parseCssRules ''a{}'' = [\<lparr>selector = ''a'', decls = []\<rparr>]"
proof -
  have a: "\<forall>r \<in> set (parseCssRules css). selector r \<noteq> []"
    unfolding parseCssRules_def by (blast dest: parseLoop_selector)
  have b: "parseCssRules ''a{}'' = [\<lparr>selector = ''a'', decls = []\<rparr>]"
    by code_simp
  from a b show ?thesis by blast
qed

theorem parseCssRules_selector_nonempty_witness:
  "parseCssRules '',a , {x:y}'' = [\<lparr>selector = ''a'', decls = ''x:y''\<rparr>]
   \<and> hd (parseCssRules '',a , {x:y}'') \<in> set (parseCssRules '',a , {x:y}'')
   \<and> selector (hd (parseCssRules '',a , {x:y}'')) \<noteq> []"
proof -
  have e: "parseCssRules '',a , {x:y}'' = [\<lparr>selector = ''a'', decls = ''x:y''\<rparr>]"
    by code_simp
  then have m: "hd (parseCssRules '',a , {x:y}'') \<in> set (parseCssRules '',a , {x:y}'')"
    by simp
  from parseCssRules_selector_nonempty [of "'',a , {x:y}''"] m
  have "selector (hd (parseCssRules '',a , {x:y}'')) \<noteq> []"
    by blast
  with e m show ?thesis by blast
qed

section \<open>Properties of a declaration text\<close>

lemma of_char_less_256: "(of_char c :: nat) < 256"
proof -
  have "(of_char c :: nat) mod 256 = of_char c" by simp
  then show ?thesis by (metis mod_less_divisor zero_less_numeral)
qed

lemma of_char_canonicalize:
  "(of_char (canonicalize c) :: nat) =
     (if (97 \<le> (of_char c :: nat) \<and> (of_char c :: nat) \<le> 122) \<or>
         (224 \<le> (of_char c :: nat) \<and> (of_char c :: nat) \<le> 254 \<and> (of_char c :: nat) \<noteq> 247)
      then of_char c - 32 else of_char c)"
proof -
  have "(of_char c :: nat) - 32 < 256"
    using of_char_less_256 [of c] by arith
  then have m: "((of_char c :: nat) - 32) mod 256 = of_char c - 32"
    by (rule mod_less)
  show ?thesis
    by (simp add: canonicalize_def Let_def m)
qed

lemma of_char_toLowerChar:
  "(of_char (toLowerChar c) :: nat) =
     (if (65 \<le> (of_char c :: nat) \<and> (of_char c :: nat) \<le> 90) \<or>
         (192 \<le> (of_char c :: nat) \<and> (of_char c :: nat) \<le> 222 \<and> (of_char c :: nat) \<noteq> 215)
      then of_char c + 32 else of_char c)"
  by (simp add: toLowerChar_def Let_def)

lemma lower_canon_nat:
  fixes n :: nat
  shows "(if (65 \<le> (if (97 \<le> n \<and> n \<le> 122) \<or> (224 \<le> n \<and> n \<le> 254 \<and> n \<noteq> 247) then n - 32 else n) \<and>
              (if (97 \<le> n \<and> n \<le> 122) \<or> (224 \<le> n \<and> n \<le> 254 \<and> n \<noteq> 247) then n - 32 else n) \<le> 90) \<or>
             (192 \<le> (if (97 \<le> n \<and> n \<le> 122) \<or> (224 \<le> n \<and> n \<le> 254 \<and> n \<noteq> 247) then n - 32 else n) \<and>
              (if (97 \<le> n \<and> n \<le> 122) \<or> (224 \<le> n \<and> n \<le> 254 \<and> n \<noteq> 247) then n - 32 else n) \<le> 222 \<and>
              (if (97 \<le> n \<and> n \<le> 122) \<or> (224 \<le> n \<and> n \<le> 254 \<and> n \<noteq> 247) then n - 32 else n) \<noteq> 215)
          then (if (97 \<le> n \<and> n \<le> 122) \<or> (224 \<le> n \<and> n \<le> 254 \<and> n \<noteq> 247) then n - 32 else n) + 32
          else (if (97 \<le> n \<and> n \<le> 122) \<or> (224 \<le> n \<and> n \<le> 254 \<and> n \<noteq> 247) then n - 32 else n)) =
         (if (65 \<le> n \<and> n \<le> 90) \<or> (192 \<le> n \<and> n \<le> 222 \<and> n \<noteq> 215) then n + 32 else n)"
  by (cases "(97 \<le> n \<and> n \<le> 122) \<or> (224 \<le> n \<and> n \<le> 254 \<and> n \<noteq> 247)") auto

lemma canon_lower_nat:
  fixes n :: nat
  shows "(if (97 \<le> (if (65 \<le> n \<and> n \<le> 90) \<or> (192 \<le> n \<and> n \<le> 222 \<and> n \<noteq> 215) then n + 32 else n) \<and>
              (if (65 \<le> n \<and> n \<le> 90) \<or> (192 \<le> n \<and> n \<le> 222 \<and> n \<noteq> 215) then n + 32 else n) \<le> 122) \<or>
             (224 \<le> (if (65 \<le> n \<and> n \<le> 90) \<or> (192 \<le> n \<and> n \<le> 222 \<and> n \<noteq> 215) then n + 32 else n) \<and>
              (if (65 \<le> n \<and> n \<le> 90) \<or> (192 \<le> n \<and> n \<le> 222 \<and> n \<noteq> 215) then n + 32 else n) \<le> 254 \<and>
              (if (65 \<le> n \<and> n \<le> 90) \<or> (192 \<le> n \<and> n \<le> 222 \<and> n \<noteq> 215) then n + 32 else n) \<noteq> 247)
          then (if (65 \<le> n \<and> n \<le> 90) \<or> (192 \<le> n \<and> n \<le> 222 \<and> n \<noteq> 215) then n + 32 else n) - 32
          else (if (65 \<le> n \<and> n \<le> 90) \<or> (192 \<le> n \<and> n \<le> 222 \<and> n \<noteq> 215) then n + 32 else n)) =
         (if (97 \<le> n \<and> n \<le> 122) \<or> (224 \<le> n \<and> n \<le> 254 \<and> n \<noteq> 247) then n - 32 else n)"
  by (cases "(65 \<le> n \<and> n \<le> 90) \<or> (192 \<le> n \<and> n \<le> 222 \<and> n \<noteq> 215)") auto

lemma toLowerChar_canonicalize: "toLowerChar (canonicalize c) = toLowerChar c"
proof -
  have "(of_char (toLowerChar (canonicalize c)) :: nat) = of_char (toLowerChar c)"
    using lower_canon_nat [of "of_char c"]
    by (simp only: of_char_toLowerChar of_char_canonicalize)
  then show ?thesis by simp
qed

lemma canonicalize_toLowerChar: "canonicalize (toLowerChar c) = canonicalize c"
proof -
  have "(of_char (canonicalize (toLowerChar c)) :: nat) = of_char (canonicalize c)"
    using canon_lower_nat [of "of_char c"]
    by (simp only: of_char_toLowerChar of_char_canonicalize)
  then show ?thesis by simp
qed

lemma canonicalize_eq_iff: "canonicalize a = canonicalize b \<longleftrightarrow> toLowerChar a = toLowerChar b"
proof
  assume "canonicalize a = canonicalize b"
  then have "toLowerChar (canonicalize a) = toLowerChar (canonicalize b)" by simp
  then show "toLowerChar a = toLowerChar b" by (simp only: toLowerChar_canonicalize)
next
  assume "toLowerChar a = toLowerChar b"
  then have "canonicalize (toLowerChar a) = canonicalize (toLowerChar b)" by simp
  then show "canonicalize a = canonicalize b" by (simp only: canonicalize_toLowerChar)
qed

lemma matchLiteral_Some:
  "matchLiteral p s = Some rest \<longleftrightarrow> (\<exists>m. s = m @ rest \<and> toLowerCase m = toLowerCase p)"
proof (induction p s rule: matchLiteral.induct)
  case (1 s)
  then show ?case by (simp add: toLowerCase_def)
next
  case (2 p ps)
  then show ?case by (auto simp: toLowerCase_def)
next
  case (3 p ps c cs)
  show ?case
  proof (cases "canonicalize p = canonicalize c")
    case True
    then have l: "toLowerChar c = toLowerChar p" by (simp add: canonicalize_eq_iff)
    have "(\<exists>m. c # cs = m @ rest \<and> toLowerCase m = toLowerCase (p # ps)) \<longleftrightarrow>
          (\<exists>m'. cs = m' @ rest \<and> toLowerCase m' = toLowerCase ps)"
    proof
      assume "\<exists>m. c # cs = m @ rest \<and> toLowerCase m = toLowerCase (p # ps)"
      then obtain m where m: "c # cs = m @ rest" "toLowerCase m = toLowerCase (p # ps)" by blast
      then obtain m' where "m = c # m'" by (cases m) (auto simp: toLowerCase_def)
      with m show "\<exists>m'. cs = m' @ rest \<and> toLowerCase m' = toLowerCase ps"
        by (auto simp: toLowerCase_def)
    next
      assume "\<exists>m'. cs = m' @ rest \<and> toLowerCase m' = toLowerCase ps"
      then obtain m' where "cs = m' @ rest" "toLowerCase m' = toLowerCase ps" by blast
      with l have "c # cs = (c # m') @ rest \<and> toLowerCase (c # m') = toLowerCase (p # ps)"
        by (simp add: toLowerCase_def)
      then show "\<exists>m. c # cs = m @ rest \<and> toLowerCase m = toLowerCase (p # ps)" by blast
    qed
    with True "3.IH" show ?thesis by simp
  next
    case False
    then have l: "toLowerChar c \<noteq> toLowerChar p" by (simp add: canonicalize_eq_iff)
    have "\<not> (\<exists>m. c # cs = m @ rest \<and> toLowerCase m = toLowerCase (p # ps))"
    proof
      assume "\<exists>m. c # cs = m @ rest \<and> toLowerCase m = toLowerCase (p # ps)"
      then obtain m where m: "c # cs = m @ rest" "toLowerCase m = toLowerCase (p # ps)" by blast
      then obtain m' where "m = c # m'" by (cases m) (auto simp: toLowerCase_def)
      with m l show False by (simp add: toLowerCase_def)
    qed
    with False show ?thesis by simp
  qed
qed

lemma colon_after_spaces:
  "(case dropWhile isSpace rest of [] \<Rightarrow> False | c # cs \<Rightarrow> c = CHR '':'') \<longleftrightarrow>
     (\<exists>ws post. rest = ws @ CHR '':'' # post \<and> list_all isSpace ws)"
proof
  assume a: "case dropWhile isSpace rest of [] \<Rightarrow> False | c # cs \<Rightarrow> c = CHR '':''"
  then obtain post where d: "dropWhile isSpace rest = CHR '':'' # post"
    by (cases "dropWhile isSpace rest") auto
  have "rest = takeWhile isSpace rest @ dropWhile isSpace rest" by simp
  with d have "rest = takeWhile isSpace rest @ CHR '':'' # post" by simp
  moreover have "list_all isSpace (takeWhile isSpace rest)"
    by (auto simp: list_all_iff dest: set_takeWhileD)
  ultimately show "\<exists>ws post. rest = ws @ CHR '':'' # post \<and> list_all isSpace ws" by blast
next
  assume "\<exists>ws post. rest = ws @ CHR '':'' # post \<and> list_all isSpace ws"
  then obtain ws post where r: "rest = ws @ CHR '':'' # post" and w: "list_all isSpace ws" by blast
  have n: "\<not> isSpace CHR '':''" by (simp add: isSpace_def)
  from w have "dropWhile isSpace (ws @ CHR '':'' # post) = dropWhile isSpace (CHR '':'' # post)"
    by (simp add: list_all_iff)
  with n have "dropWhile isSpace rest = CHR '':'' # post" by (simp add: r)
  then show "case dropWhile isSpace rest of [] \<Rightarrow> False | c # cs \<Rightarrow> c = CHR '':''" by simp
qed

lemma propMatchAt_iff:
  "propMatchAt p prev s \<longleftrightarrow>
     wordBoundary prev s \<and>
     (\<exists>m ws post. s = m @ ws @ CHR '':'' # post \<and> toLowerCase m = toLowerCase p \<and> list_all isSpace ws)"
proof -
  have "(case matchLiteral p s of None \<Rightarrow> False
         | Some rest \<Rightarrow> (case dropWhile isSpace rest of [] \<Rightarrow> False | c # cs \<Rightarrow> c = CHR '':'')) \<longleftrightarrow>
        (\<exists>rest. matchLiteral p s = Some rest \<and>
                (case dropWhile isSpace rest of [] \<Rightarrow> False | c # cs \<Rightarrow> c = CHR '':''))"
    by (cases "matchLiteral p s") simp_all
  also have "\<dots> \<longleftrightarrow>
        (\<exists>rest. (\<exists>m. s = m @ rest \<and> toLowerCase m = toLowerCase p) \<and>
                (\<exists>ws post. rest = ws @ CHR '':'' # post \<and> list_all isSpace ws))"
    by (simp only: matchLiteral_Some colon_after_spaces)
  also have "\<dots> \<longleftrightarrow>
        (\<exists>m ws post. s = m @ ws @ CHR '':'' # post \<and> toLowerCase m = toLowerCase p \<and> list_all isSpace ws)"
    by blast
  finally show ?thesis by (simp add: propMatchAt_def)
qed

lemma propSearch_iff:
  "propSearch p prev s \<longleftrightarrow>
     (\<exists>pre rest. s = pre @ rest \<and> propMatchAt p (if pre = [] then prev else Some (last pre)) rest)"
proof (induction s arbitrary: prev)
  case Nil
  then show ?case by simp
next
  case (Cons c cs)
  have "(\<exists>pre rest. c # cs = pre @ rest \<and> propMatchAt p (if pre = [] then prev else Some (last pre)) rest) \<longleftrightarrow>
        propMatchAt p prev (c # cs) \<or>
        (\<exists>pre' rest. cs = pre' @ rest \<and> propMatchAt p (if pre' = [] then Some c else Some (last pre')) rest)"
  proof
    assume "\<exists>pre rest. c # cs = pre @ rest \<and> propMatchAt p (if pre = [] then prev else Some (last pre)) rest"
    then obtain pre rest where h: "c # cs = pre @ rest"
        "propMatchAt p (if pre = [] then prev else Some (last pre)) rest" by blast
    show "propMatchAt p prev (c # cs) \<or>
        (\<exists>pre' rest. cs = pre' @ rest \<and> propMatchAt p (if pre' = [] then Some c else Some (last pre')) rest)"
    proof (cases pre)
      case Nil
      with h show ?thesis by simp
    next
      case (Cons x pre')
      with h have "cs = pre' @ rest \<and> propMatchAt p (if pre' = [] then Some c else Some (last pre')) rest"
        by (auto split: if_splits)
      then show ?thesis by blast
    qed
  next
    assume "propMatchAt p prev (c # cs) \<or>
        (\<exists>pre' rest. cs = pre' @ rest \<and> propMatchAt p (if pre' = [] then Some c else Some (last pre')) rest)"
    then show "\<exists>pre rest. c # cs = pre @ rest \<and> propMatchAt p (if pre = [] then prev else Some (last pre)) rest"
    proof
      assume "propMatchAt p prev (c # cs)"
      then have "c # cs = [] @ (c # cs) \<and> propMatchAt p (if [] = ([] :: string) then prev else Some (last [])) (c # cs)"
        by simp
      then show ?thesis by blast
    next
      assume "\<exists>pre' rest. cs = pre' @ rest \<and> propMatchAt p (if pre' = [] then Some c else Some (last pre')) rest"
      then obtain pre' rest where h: "cs = pre' @ rest"
          "propMatchAt p (if pre' = [] then Some c else Some (last pre')) rest" by blast
      then have "c # cs = (c # pre') @ rest \<and>
          propMatchAt p (if c # pre' = [] then prev else Some (last (c # pre'))) rest"
        by (auto split: if_splits)
      then show ?thesis by blast
    qed
  qed
  with Cons show ?case by simp
qed

lemma wordBoundary_spec:
  "wordBoundary (if pre = [] then None else Some (last pre)) rest = spec_wordBoundary pre rest"
  by (cases rest) (simp_all add: wordBoundary_def spec_wordBoundary_def isWordAt_def)

lemma propRegExpTest_spec: "propRegExpTest p d \<longleftrightarrow> spec_hasProperty d p"
proof -
  have "propRegExpTest p d \<longleftrightarrow>
        (\<exists>pre rest. d = pre @ rest \<and> spec_wordBoundary pre rest \<and>
           (\<exists>m ws post. rest = m @ ws @ CHR '':'' # post \<and> toLowerCase m = toLowerCase p \<and>
              list_all isSpace ws))"
    by (simp only: propRegExpTest_def propSearch_iff propMatchAt_iff wordBoundary_spec)
  also have "\<dots> \<longleftrightarrow> spec_hasProperty d p"
    unfolding spec_hasProperty_def by blast
  finally show ?thesis .
qed

text \<open>
  Claim C2. A declaration text has a property exactly when it contains the property name,
  up to case, directly followed by optional whitespace and a colon, the name starting at a
  word boundary; \<open>declsHasAnyProperty\<close> and \<open>declsHasAllProperties\<close> ask this of one
  and of all names of a list. The declaration \<^verbatim>\<open>border-color: red;\<close> satisfies an any-of
  \<^verbatim>\<open>color\<close> requirement and \<^verbatim>\<open>colorful-border: red\<close> does not.
\<close>

theorem declsHasProperty_spec:
  "(propRegExpTest p d \<longleftrightarrow> spec_hasProperty d p)
   \<and> (declsHasAnyProperty d ps \<longleftrightarrow> (\<exists>p \<in> set ps. spec_hasProperty d p))
   \<and> (declsHasAllProperties d ps \<longleftrightarrow> (\<forall>p \<in> set ps. spec_hasProperty d p))
   \<and> declsHasAnyProperty ''border-color: red;'' [''color'']
   \<and> ruleSatisfies [\<lparr>selector = ''a'', decls = ''border-color: red;''\<rparr>] (MString ''a'') (anyOf [''color''])
   \<and> \<not> declsHasAnyProperty ''colorful-border: red'' [''color'']
   \<and> \<not> ruleSatisfies [\<lparr>selector = ''a'', decls = ''colorful-border: red''\<rparr>] (MString ''a'') (anyOf [''color''])"
proof -
  have a: "declsHasAnyProperty d ps \<longleftrightarrow> (\<exists>p \<in> set ps. spec_hasProperty d p)"
    by (simp add: declsHasAnyProperty_def list_ex_iff propRegExpTest_spec)
  have b: "declsHasAllProperties d ps \<longleftrightarrow> (\<forall>p \<in> set ps. spec_hasProperty d p)"
    by (simp add: declsHasAllProperties_def list_all_iff propRegExpTest_spec)
  have c: "declsHasAnyProperty ''border-color: red;'' [''color'']"
    by code_simp
  have d: "ruleSatisfies [\<lparr>selector = ''a'', decls = ''border-color: red;''\<rparr>] (MString ''a'') (anyOf [''color''])"
    by code_simp
  have e: "\<not> declsHasAnyProperty ''colorful-border: red'' [''color'']"
    by code_simp
  have f: "\<not> ruleSatisfies [\<lparr>selector = ''a'', decls = ''colorful-border: red''\<rparr>] (MString ''a'') (anyOf [''color''])"
    by code_simp
  from a b c d e f propRegExpTest_spec [of p d] show ?thesis by blast
qed

theorem declsHasProperty_spec_witness:
  "declsHasAnyProperty ''Color : red'' [''font'', ''color'']
   \<and> spec_hasProperty ''Color : red'' ''color''
   \<and> \<not> spec_hasProperty ''xcolor: red'' ''color''"
proof -
  have a: "propRegExpTest ''color'' ''Color : red''"
    by code_simp
  have b: "\<not> propRegExpTest ''color'' ''xcolor: red''"
    by code_simp
  have 1: "spec_hasProperty ''Color : red'' ''color''"
    using declsHasProperty_spec [of "''color''" "''Color : red''" ps] a by blast
  have 2: "\<not> spec_hasProperty ''xcolor: red'' ''color''"
    using declsHasProperty_spec [of "''color''" "''xcolor: red''" ps] b by blast
  have 3: "declsHasAnyProperty ''Color : red'' [''font'', ''color'']"
    using declsHasProperty_spec [of p "''Color : red''" "[''font'', ''color'']"] 1 by simp
  from 1 2 3 show ?thesis by blast
qed

section \<open>Printing and reading numbers, splitting and joining\<close>

declare showDecimal.simps [simp del]

lemma digitsValue_snoc: "digitsValue (ds @ [d]) = 10 * digitsValue ds + (of_char d - 48)"
  by (simp add: digitsValue_def)

lemma digit_char:
  assumes "0 \<le> k" and "k < 10"
  shows "isDigit (char_of (48 + k :: int)) \<and> (of_char (char_of (48 + k :: int)) :: int) = 48 + k"
proof -
  have m: "(48 + k) mod 256 = 48 + k"
    using assms by simp
  have n: "(of_char (char_of (48 + k :: int)) :: nat) = nat (48 + k)"
  proof -
    have "int (of_char (char_of (48 + k :: int)) :: nat) = (of_char (char_of (48 + k :: int)) :: int)"
      by (simp add: of_char_def)
    also have "\<dots> = 48 + k" by (simp add: m)
    finally show ?thesis by simp
  qed
  have "48 \<le> nat (48 + k) \<and> nat (48 + k) \<le> 57"
    using assms by arith
  then show ?thesis
    by (simp add: isDigit_def Let_def n m)
qed

lemma showDecimal_digits: "0 \<le> n \<Longrightarrow> list_all isDigit (showDecimal n) \<and> showDecimal n \<noteq> []"
proof (induction n rule: showDecimal.induct)
  case (1 n)
  show ?case
  proof (cases "n < 10")
    case True
    with "1.prems" show ?thesis
      by (subst (1 2) showDecimal.simps) (simp add: digit_char)
  next
    case False
    then have "0 \<le> n mod 10" and "n mod 10 < 10" and "0 \<le> n div 10"
      using "1.prems" by simp_all
    with False "1.IH" show ?thesis
      by (subst (1 2) showDecimal.simps) (simp add: digit_char)
  qed
qed

lemma digitsValue_showDecimal: "0 \<le> n \<Longrightarrow> digitsValue (showDecimal n) = n"
proof (induction n rule: showDecimal.induct)
  case (1 n)
  show ?case
  proof (cases "n < 10")
    case True
    with "1.prems" show ?thesis
      by (subst showDecimal.simps) (simp add: digitsValue_def digit_char)
  next
    case False
    then have "0 \<le> n mod 10" and "n mod 10 < 10" and "0 \<le> n div 10"
      using "1.prems" by simp_all
    with False "1.IH" show ?thesis
      by (subst showDecimal.simps) (simp add: digitsValue_snoc digit_char)
  qed
qed

lemma isDigit_plain:
  assumes "isDigit c"
  shows "\<not> isSpace c \<and> c \<noteq> CHR ''|'' \<and> c \<noteq> CHR 0x0A"
proof -
  from assms have r: "48 \<le> (of_char c :: nat) \<and> (of_char c :: nat) \<le> 57"
    by (simp add: isDigit_def Let_def)
  then have a: "\<not> isSpace c"
    by (auto simp: isSpace_code)
  from r have b: "c \<noteq> CHR ''|''" and d: "c \<noteq> CHR 0x0A"
    by auto
  from a b d show ?thesis by simp
qed

lemma trim_id:
  assumes "s \<noteq> []" and "\<not> isSpace (hd s)" and "\<not> isSpace (last s)"
  shows "trim s = s"
proof -
  from assms have a: "dropWhile isSpace s = s"
    by (cases s) simp_all
  from assms have "rev s \<noteq> []" and "\<not> isSpace (hd (rev s))"
    by (simp_all add: hd_rev)
  then have b: "dropWhile isSpace (rev s) = rev s"
    by (cases "rev s") simp_all
  show ?thesis by (simp add: trim_def a b)
qed

lemma trim_newline:
  assumes "s \<noteq> []" and "\<not> isSpace (hd s)" and "\<not> isSpace (last s)"
  shows "trim (s @ [CHR 0x0A]) = s"
proof -
  from assms have a: "dropWhile isSpace (s @ [CHR 0x0A]) = s @ [CHR 0x0A]"
    by (cases s) simp_all
  have sp: "isSpace CHR 0x0A" by (simp add: isSpace_def)
  from assms have "rev s \<noteq> []" and "\<not> isSpace (hd (rev s))"
    by (simp_all add: hd_rev)
  then have b: "dropWhile isSpace (rev s) = rev s"
    by (cases "rev s") simp_all
  show ?thesis by (simp add: trim_def a b sp)
qed

lemma Number_showDecimal:
  assumes "0 \<le> n"
  shows "Number (showDecimal n) = Some n" and "Number (trim (showDecimal n @ [CHR 0x0A])) = Some n"
proof -
  from showDecimal_digits [OF assms]
  have d: "list_all isDigit (showDecimal n)" and ne: "showDecimal n \<noteq> []" by simp_all
  from ne have "hd (showDecimal n) \<in> set (showDecimal n)" and "last (showDecimal n) \<in> set (showDecimal n)"
    by simp_all
  with d have "isDigit (hd (showDecimal n))" and "isDigit (last (showDecimal n))"
    by (simp_all add: list_all_iff)
  then have h: "\<not> isSpace (hd (showDecimal n))" and l: "\<not> isSpace (last (showDecimal n))"
    using isDigit_plain by blast+
  have t: "trim (showDecimal n) = showDecimal n"
    using ne h l by (rule trim_id)
  show a: "Number (showDecimal n) = Some n"
    unfolding Number_def Let_def t using d ne
    by (simp add: digitsValue_showDecimal [OF assms] del: showDecimal.simps)
  have "trim (showDecimal n @ [CHR 0x0A]) = showDecimal n"
    using ne h l by (rule trim_newline)
  with a show "Number (trim (showDecimal n @ [CHR 0x0A])) = Some n" by simp
qed

lemma split_nonempty: "split sep s \<noteq> []"
  by (induction s) (auto split: list.splits)

lemma split_none: "sep \<notin> set a \<Longrightarrow> split sep a = [a]"
  by (induction a) (auto split: list.splits)

lemma split_append: "sep \<notin> set a \<Longrightarrow> split sep (a @ sep # b) = a # split sep b"
  by (induction a) (auto split: list.splits)

lemma join_split: "join sep (split sep s) = s"
proof (induction s)
  case Nil
  then show ?case by simp
next
  case (Cons c cs)
  obtain p ps where s: "split sep cs = p # ps"
    using split_nonempty [of sep cs] by (cases "split sep cs") auto
  show ?case
  proof (cases "c = sep")
    case True
    with Cons s show ?thesis by simp
  next
    case False
    with Cons s show ?thesis by (cases ps) simp_all
  qed
qed

section \<open>The commit query in the environment it was written for\<close>

lemma commitLine_parts:
  assumes "wfCommit c"
  shows "split CHR ''|'' (commitLine c) =
           showDecimal (c_ct c) # c_an c # c_ae c # c_cn c # c_ce c # split CHR ''|'' (c_subject c)"
proof -
  from assms have "0 \<le> c_ct c" by (simp add: wfCommit_def)
  then have "list_all isDigit (showDecimal (c_ct c))"
    using showDecimal_digits by blast
  then have d: "CHR ''|'' \<notin> set (showDecimal (c_ct c))"
    using isDigit_plain by (auto simp: list_all_iff)
  from assms have f: "CHR ''|'' \<notin> set (c_an c)" "CHR ''|'' \<notin> set (c_ae c)"
      "CHR ''|'' \<notin> set (c_cn c)" "CHR ''|'' \<notin> set (c_ce c)"
    by (simp_all add: wfCommit_def)
  have "commitLine c =
          showDecimal (c_ct c) @ CHR ''|'' # (c_an c @ CHR ''|'' # (c_ae c @ CHR ''|'' #
            (c_cn c @ CHR ''|'' # (c_ce c @ CHR ''|'' # c_subject c))))"
    by (simp add: commitLine_def)
  then show ?thesis
    by (simp only: split_append [OF d] split_append [OF f(1)] split_append [OF f(2)]
        split_append [OF f(3)] split_append [OF f(4)])
qed

lemma lineHay_commitLine:
  assumes "wfCommit c"
  shows "lineHay (commitLine c) =
           toLowerCase (c_an c @ '' '' @ c_ae c @ '' '' @ c_cn c @ '' '' @ c_ce c @ '' '' @ c_subject c)"
  unfolding lineHay_def commitLine_parts [OF assms] Let_def
  by (simp add: part_def join_split)

lemma firstStudentLine_commitLine:
  assumes "wfCommit c"
  shows "firstStudentLine (commitLine c # ls) =
           (if spec_automated c then firstStudentLine ls else Some (c_ct c * 1000))"
proof -
  from assms have n: "0 \<le> c_ct c" by (simp add: wfCommit_def)
  have p: "part (split CHR ''|'' (commitLine c)) 0 = showDecimal (c_ct c)"
    unfolding commitLine_parts [OF assms] by (simp add: part_def)
  have b: "isBot (lineHay (commitLine c)) = spec_automated c"
    by (simp only: isBot_def spec_automated_def lineHay_commitLine [OF assms])
  show ?thesis
    by (simp add: Let_def p b Number_showDecimal(1) [OF n])
qed

lemma firstStudentLine_commits:
  "list_all wfCommit cs \<Longrightarrow>
     firstStudentLine (map commitLine cs) =
       map_option (\<lambda>c. c_ct c * 1000) (find (\<lambda>c. \<not> spec_automated c) cs)"
proof (induction cs)
  case Nil
  then show ?case by simp
next
  case (Cons c cs)
  then have "wfCommit c" and "list_all wfCommit cs" by simp_all
  with Cons.IH show ?case
    by (simp add: firstStudentLine_commitLine del: firstStudentLine.simps)
qed

lemma commitLine_plain:
  assumes "wfCommit c"
  shows "commitLine c \<noteq> []" and "\<not> isSpace (hd (commitLine c))"
    and "\<not> isSpace (last (commitLine c))" and "CHR 0x0A \<notin> set (commitLine c)"
proof -
  from assms have n: "0 \<le> c_ct c" by (simp add: wfCommit_def)
  from showDecimal_digits [OF n]
  have d: "list_all isDigit (showDecimal (c_ct c))" and ne: "showDecimal (c_ct c) \<noteq> []" by simp_all
  from ne have "hd (showDecimal (c_ct c)) \<in> set (showDecimal (c_ct c))" by simp
  with d have hd: "isDigit (hd (showDecimal (c_ct c)))" by (simp add: list_all_iff)
  show "commitLine c \<noteq> []"
    using ne by (simp add: commitLine_def)
  have "hd (commitLine c) = hd (showDecimal (c_ct c))"
    using ne by (simp add: commitLine_def)
  then show "\<not> isSpace (hd (commitLine c))"
    using hd isDigit_plain by simp
  have bar: "\<not> isSpace CHR ''|''" by (simp add: isSpace_def)
  have "last (commitLine c) = (if c_subject c = [] then CHR ''|'' else last (c_subject c))"
    by (simp add: commitLine_def)
  with assms bar show "\<not> isSpace (last (commitLine c))"
    by (auto simp: wfCommit_def)
  from d have "CHR 0x0A \<notin> set (showDecimal (c_ct c))"
    using isDigit_plain by (auto simp: list_all_iff)
  with assms show "CHR 0x0A \<notin> set (commitLine c)"
    by (simp add: commitLine_def wfCommit_def)
qed

lemma split_join_lines:
  "ls \<noteq> [] \<Longrightarrow> \<forall>l \<in> set ls. sep \<notin> set l \<Longrightarrow> split sep (join sep ls) = ls"
proof (induction sep ls rule: join.induct)
  case (1 sep)
  then show ?case by simp
next
  case (2 sep p)
  then show ?case by (simp add: split_none)
next
  case (3 sep p q ps)
  then show ?case by (simp add: split_append del: split.simps)
qed

lemma concat_lines:
  "ls \<noteq> [] \<Longrightarrow> concat (map (\<lambda>l. l @ [sep]) ls) = join sep ls @ [sep]"
  by (induction sep ls rule: join.induct) simp_all

lemma join_hd_last:
  "ls \<noteq> [] \<Longrightarrow> \<forall>l \<in> set ls. l \<noteq> [] \<Longrightarrow>
     join sep ls \<noteq> [] \<and> hd (join sep ls) = hd (hd ls) \<and> last (join sep ls) = last (last ls)"
proof (induction sep ls rule: join.induct)
  case (1 sep)
  then show ?case by simp
next
  case (2 sep p)
  then show ?case by simp
next
  case (3 sep p q ps)
  then have p: "p \<noteq> []" and rest: "\<forall>l \<in> set (q # ps). l \<noteq> []" by simp_all
  from "3.IH" rest have j: "join sep (q # ps) \<noteq> []"
    and l: "last (join sep (q # ps)) = last (last (q # ps))" by simp_all
  have e: "join sep (p # q # ps) = p @ sep # join sep (q # ps)" by simp
  have "hd (join sep (p # q # ps)) = hd p"
    unfolding e using p by simp
  moreover have "last (join sep (p # q # ps)) = last (join sep (q # ps))"
    unfolding e using j by simp
  ultimately show ?case
    using l by (simp del: join.simps add: e)
qed

lemma trim_commit_lines:
  assumes "cs \<noteq> []" and "list_all wfCommit cs"
  shows "split CHR 0x0A (trim (concat (map (\<lambda>c. commitLine c @ [CHR 0x0A]) cs))) = map commitLine cs"
    and "trim (concat (map (\<lambda>c. commitLine c @ [CHR 0x0A]) cs)) \<noteq> []"
proof -
  let ?ls = "map commitLine cs"
  from assms have ne: "?ls \<noteq> []" by simp
  from assms(2) have each: "\<forall>l \<in> set ?ls. l \<noteq> []" and nl: "\<forall>l \<in> set ?ls. CHR 0x0A \<notin> set l"
    using commitLine_plain by (auto simp: list_all_iff)
  from join_hd_last [OF ne each, of "CHR 0x0A"]
  have j: "join CHR 0x0A ?ls \<noteq> []" and h: "hd (join CHR 0x0A ?ls) = hd (hd ?ls)"
    and l: "last (join CHR 0x0A ?ls) = last (last ?ls)" by simp_all
  from assms have "wfCommit (hd cs)" and "wfCommit (last cs)"
    by (simp_all add: list_all_iff)
  then have "\<not> isSpace (hd (commitLine (hd cs)))" and "\<not> isSpace (last (commitLine (last cs)))"
    using commitLine_plain by blast+
  with assms(1) h l have h': "\<not> isSpace (hd (join CHR 0x0A ?ls))" and l': "\<not> isSpace (last (join CHR 0x0A ?ls))"
    by (simp_all add: hd_map last_map)
  have c: "concat (map (\<lambda>c. commitLine c @ [CHR 0x0A]) cs) = join CHR 0x0A ?ls @ [CHR 0x0A]"
    using concat_lines [OF ne, of "CHR 0x0A"] by (simp add: comp_def)
  have t: "trim (concat (map (\<lambda>c. commitLine c @ [CHR 0x0A]) cs)) = join CHR 0x0A ?ls"
    unfolding c using j h' l' by (rule trim_newline)
  show "split CHR 0x0A (trim (concat (map (\<lambda>c. commitLine c @ [CHR 0x0A]) cs))) = map commitLine cs"
    unfolding t using ne nl by (rule split_join_lines)
  show "trim (concat (map (\<lambda>c. commitLine c @ [CHR 0x0A]) cs)) \<noteq> []"
    unfolding t by (rule j)
qed

lemma latest_command_output:
  "execSyncMeant (Some (c # cs)) ''git log -1 --format=%ct'' = Some (showDecimal (c_ct c) @ [CHR 0x0A])"
proof -
  have a: "commandName (last (shellStages ''git log -1 --format=%ct'')) = ''git''"
    by code_simp
  have b: "trim (last (shellStages ''git log -1 --format=%ct'')) = ''git log -1 --format=%ct''"
    by code_simp
  show ?thesis
    by (simp add: execSyncMeant_def execSync_def Let_def a b gitProgram_def)
qed

text \<open>
  In the environment the first command was written for, and on commits as \<^verbatim>\<open>git\<close>
  prints them, the resolver returns what the specification describes.
\<close>

lemma meant_query_agrees:
  assumes "case h of None \<Rightarrow> True | Some cs \<Rightarrow> list_all wfCommit cs"
  shows "getLatestStudentCommitEpochMs (execSyncMeant h) = spec_latestStudentCommit h"
proof (cases h)
  case None
  then show ?thesis
    by (simp add: getLatestStudentCommitEpochMs_def execSyncMeant_def spec_latestStudentCommit_def)
next
  case (Some cs)
  show ?thesis
  proof (cases cs)
    case Nil
    with Some show ?thesis
      by (simp add: getLatestStudentCommitEpochMs_def execSyncMeant_def spec_latestStudentCommit_def)
  next
    case (Cons c cs')
    define w where "w = take 300 (c # cs')"
    from assms Some Cons have wf: "list_all wfCommit (c # cs')" by simp
    then have wfw: "list_all wfCommit w"
      unfolding w_def by (auto simp: list_all_iff dest: in_set_takeD)
    have new: "w \<noteq> []" by (simp add: w_def)
    have out: "execSyncMeant h ''git log --format=%ct|%an|%ae|%cn|%ce|%s -n 300'' =
                 Some (concat (map (\<lambda>c. commitLine c @ [CHR 0x0A]) w))"
      by (simp add: execSyncMeant_def Some Cons w_def)
    from wf have n: "0 \<le> c_ct c" by (simp add: wfCommit_def)
    have fb: "execSyncMeant h ''git log -1 --format=%ct'' = Some (showDecimal (c_ct c) @ [CHR 0x0A])"
      unfolding Some Cons by (rule latest_command_output)
    have num: "Number (trim (showDecimal (c_ct c) @ [CHR 0x0A])) = Some (c_ct c)"
      by (rule Number_showDecimal(2) [OF n])
    note lines = trim_commit_lines(1) [OF new wfw]
    note nonempty = trim_commit_lines(2) [OF new wfw]
    have a: "getLatestStudentCommitEpochMs (execSyncMeant h) =
            (case find (\<lambda>c. \<not> spec_automated c) w of
               Some x \<Rightarrow> Some (c_ct x * 1000)
             | None \<Rightarrow> Some (c_ct c * 1000))"
      unfolding getLatestStudentCommitEpochMs_def out fb Let_def option.case lines num
        firstStudentLine_commits [OF wfw]
      using nonempty by (simp split: option.splits)
    have b: "spec_latestStudentCommit h =
            (case find (\<lambda>c. \<not> spec_automated c) w of
               Some x \<Rightarrow> Some (c_ct x * 1000)
             | None \<Rightarrow> Some (c_ct c * 1000))"
      by (simp add: spec_latestStudentCommit_def Some Cons w_def)
    from a b show ?thesis by simp
  qed
qed

section \<open>The commit query\<close>

lemma student_log_command_fails:
  "execSync h ''git log --format=%ct|%an|%ae|%cn|%ce|%s -n 300'' = None"
proof -
  have "commandName (last (shellStages ''git log --format=%ct|%an|%ae|%cn|%ce|%s -n 300'')) = ''%s''"
    by code_simp
  then show ?thesis
    by (simp add: execSync_def Let_def)
qed

lemma no_timestamp_from_history: "getLatestStudentCommitEpochMs (execSync h) = None"
  by (simp add: student_log_command_fails getLatestStudentCommitEpochMs_def)

text \<open>
  Claim C8 fails on the code. The first command text is a pipeline whose last stage is
  \<^verbatim>\<open>%s -n 300\<close>; there is no such program, \<^verbatim>\<open>execSync\<close> throws, and the resolver
  returns \<^verbatim>\<open>null\<close> for every history. For \<open>lateHistory\<close> the claim asks for the
  timestamp of the student commit, which is after the deadline; the code yields none and
  the run is on time (status 0). The second command, which has no pipe, prints the newest
  commit time, and on the lines the first command was written to print the resolver does
  return the student commit and the run is late (\<open>meant_query_agrees\<close> has this for
  every history).
\<close>

theorem student_commit_query_fails:
  "execSync lateHistory ''git log --format=%ct|%an|%ae|%cn|%ce|%s -n 300'' = None
   \<and> getLatestStudentCommitEpochMs (execSync lateHistory) = None
   \<and> run_status (grade tasks (Some ''p{color:red}'') (execSync lateHistory)) = 0
   \<and> spec_latestStudentCommit lateHistory = Some 1757969941000
   \<and> 1757969941000 > DUE_EPOCH_MS
   \<and> execSync lateHistory ''git log -1 --format=%ct'' = Some (''1757970000'' @ [CHR 0x0A])
   \<and> getLatestStudentCommitEpochMs (execSyncMeant lateHistory) = Some 1757969941000
   \<and> run_status (grade tasks (Some ''p{color:red}'') (execSyncMeant lateHistory)) = 1"
proof -
  have a: "execSync lateHistory ''git log --format=%ct|%an|%ae|%cn|%ce|%s -n 300'' = None"
    by (rule student_log_command_fails)
  have b: "getLatestStudentCommitEpochMs (execSync lateHistory) = None"
    by (rule no_timestamp_from_history)
  have e: "\<not> cssEmpty (Some ''p{color:red}'')"
    by code_simp
  have c: "run_status (grade tasks (Some ''p{color:red}'') (execSync lateHistory)) = 0"
    using e by (simp add: run_status_eq status_def wasSubmittedLate_def b hasCss_def)
  have d: "spec_latestStudentCommit lateHistory = Some 1757969941000"
    by code_simp
  have f: "1757969941000 > DUE_EPOCH_MS"
    by (simp add: DUE_EPOCH_MS_def)
  have g: "execSync lateHistory ''git log -1 --format=%ct'' = Some (''1757970000'' @ [CHR 0x0A])"
    by code_simp
  have h: "getLatestStudentCommitEpochMs (execSyncMeant lateHistory) = Some 1757969941000"
    by code_simp
  have i: "run_status (grade tasks (Some ''p{color:red}'') (execSyncMeant lateHistory)) = 1"
    using e by (simp add: run_status_eq status_def wasSubmittedLate_def h hasCss_def DUE_EPOCH_MS_def)
  from a b c d f g h i show ?thesis by blast
qed

end
